theory Spec2Isabelle
  imports Complex_Main "HOL-Library.Signed_Division"
begin

section \<open>The maze-chase game: data model\<close>

text \<open>
  The program keeps its whole state in global variables and mutates them from
  \<^verbatim>\<open>updateGame\<close>, which the timer calls once per tick. The model collects the globals
  in one record that every function takes and returns.

  Conventions of the embedding:
  \<^item> a C \<^verbatim>\<open>float\<close> is a \<^typ>\<open>real\<close>: arithmetic is exact, rounding is not modelled;
  \<^item> a C \<^verbatim>\<open>int\<close> is an \<^typ>\<open>int\<close>; \<^verbatim>\<open>%\<close> is the truncating \<open>smod\<close>;
  \<^item> the cast \<^verbatim>\<open>(int)f\<close> truncates toward zero (\<open>c_int\<close>);
  \<^item> \<^verbatim>\<open>board[r][c]\<close> with an index outside \<open>0..19\<close> is undefined behaviour in C; the
    model returns the error \<open>BoardIndex\<close> there;
  \<^item> \<^verbatim>\<open>rand()\<close> reads the next element of a sequence of naturals held in the state;
  \<^item> the file \<^verbatim>\<open>highscore.txt\<close> is a value of type \<open>hs_file\<close> plus a flag telling
    whether it can be opened for writing.
\<close>

datatype GameState = MENU | PLAYING | PAUSED | GAMEOVER | WIN | HELP | HIGHSCORE

record Pacman =
  p_x :: real
  p_y :: real
  dirX :: int
  dirY :: int
  p_speed :: real

record Ghost =
  g_x :: real
  g_y :: real
  g_speed :: real
  g_r :: real
  g_g :: real
  g_b :: real
  g_name :: string
  behavior :: int
  specialTimer :: real
  isActive :: bool

record PowerUp =
  u_x :: real
  u_y :: real
  u_type :: int
  u_active :: bool
  duration :: real

datatype hs_file = Missing | Unreadable | Holds int

datatype err = BoardIndex

type_synonym board = "nat \<Rightarrow> nat \<Rightarrow> int"

record Globals =
  gameState :: GameState
  previousState :: GameState
  score :: int
  lives :: int
  highScore :: int
  gameTime :: int
  frameCount :: int
  pacman :: Pacman
  ghosts :: "Ghost list"
  powerUps :: "PowerUp list"
  powerUpTimer :: real
  activePowerUp :: int
  board :: board
  totalPellets :: int
  rand_seq :: "nat \<Rightarrow> nat"
  rand_pos :: nat
  hs_store :: hs_file
  hs_writable :: bool

abbreviation ROWS :: nat where "ROWS \<equiv> 20"
abbreviation COLS :: nat where "COLS \<equiv> 20"

definition c_int :: "real \<Rightarrow> int" where
  "c_int r = (if 0 \<le> r then \<lfloor>r\<rfloor> else \<lceil>r\<rceil>)"

definition readBoard :: "board \<Rightarrow> int \<Rightarrow> int \<Rightarrow> err + int" where
  "readBoard b r c =
     (if 0 \<le> r \<and> r < int ROWS \<and> 0 \<le> c \<and> c < int COLS then Inr (b (nat r) (nat c))
      else Inl BoardIndex)"

definition setCell :: "board \<Rightarrow> nat \<Rightarrow> nat \<Rightarrow> int \<Rightarrow> board" where
  "setCell b r c v = b(r := (b r)(c := v))"

section \<open>High score persistence\<close>

definition loadHighScore :: "Globals \<Rightarrow> Globals" where
  "loadHighScore g =
     (case hs_store g of
        Holds n \<Rightarrow> g\<lparr>highScore := n\<rparr>
      | Unreadable \<Rightarrow> g\<lparr>highScore := 0\<rparr>
      | Missing \<Rightarrow> g\<lparr>highScore := 0\<rparr>)"

definition saveHighScore :: "Globals \<Rightarrow> Globals" where
  "saveHighScore g =
     (if score g > highScore g then
        (let g1 = g\<lparr>highScore := score g\<rparr>
         in if hs_writable g1 then g1\<lparr>hs_store := Holds (highScore g1)\<rparr> else g1)
      else g)"

section \<open>Initialisation\<close>

definition cellInit :: "nat \<Rightarrow> nat \<Rightarrow> int" where
  "cellInit i j =
     (if i = 0 \<or> j = 0 \<or> i = ROWS - 1 \<or> j = COLS - 1 then 2
      else if (i = 10 \<and> 8 \<le> j \<and> j \<le> 12) \<or> (j = 10 \<and> 8 \<le> i \<and> i \<le> 12) then 2
      else 1)"

definition initStep :: "nat \<Rightarrow> nat \<Rightarrow> board \<times> int \<Rightarrow> board \<times> int" where
  "initStep i j s =
     (case s of (b, tp) \<Rightarrow>
        (setCell b i j (cellInit i j), if cellInit i j = 1 then tp + 1 else tp))"

definition initLoops :: "board \<Rightarrow> board \<times> int" where
  "initLoops b = fold (\<lambda>i s. fold (initStep i) [0..<COLS] s) [0..<ROWS] (b, 0)"

definition initBoard :: "Globals \<Rightarrow> Globals" where
  "initBoard g =
     (case initLoops (board g) of (b, tp) \<Rightarrow>
        (let b1 = setCell b 1 1 0;
             b2 = setCell b1 (ROWS - 2) (COLS - 2) 0;
             b3 = setCell b2 (ROWS - 2) 1 0;
             b4 = setCell b3 1 (COLS - 2) 0;
             b5 = setCell b4 10 10 0;
             b6 = setCell b5 3 3 3;
             b7 = setCell b6 3 (COLS - 4) 3;
             b8 = setCell b7 (ROWS - 4) 3 3;
             b9 = setCell b8 (ROWS - 4) (COLS - 4) 3
         in g\<lparr>board := b9, totalPellets := tp\<rparr>))"

definition blinky :: Ghost where
  "blinky = \<lparr>g_x = 18, g_y = 18, g_speed = 0.04, g_r = 1, g_g = 0, g_b = 0,
     g_name = ''Blinky'', behavior = 0, specialTimer = 0, isActive = True\<rparr>"

definition pinky :: Ghost where
  "pinky = \<lparr>g_x = 1, g_y = 18, g_speed = 0.035, g_r = 1, g_g = 0.4, g_b = 0.7,
     g_name = ''Pinky'', behavior = 1, specialTimer = 0, isActive = True\<rparr>"

definition inky :: Ghost where
  "inky = \<lparr>g_x = 18, g_y = 1, g_speed = 0.038, g_r = 0, g_g = 1, g_b = 1,
     g_name = ''Inky'', behavior = 2, specialTimer = 0, isActive = True\<rparr>"

definition clyde :: Ghost where
  "clyde = \<lparr>g_x = 10, g_y = 10, g_speed = 0.03, g_r = 1, g_g = 0.6, g_b = 0,
     g_name = ''Clyde'', behavior = 3, specialTimer = 0, isActive = True\<rparr>"

definition initGhosts :: "Globals \<Rightarrow> Globals" where
  "initGhosts g = g\<lparr>ghosts := [blinky, pinky, inky, clyde]\<rparr>"

definition initPowerUps :: "Globals \<Rightarrow> Globals" where
  "initPowerUps g = g\<lparr>powerUps :=
     [\<lparr>u_x = 3, u_y = 3, u_type = 0, u_active = True, duration = 0\<rparr>,
      \<lparr>u_x = 16, u_y = 3, u_type = 1, u_active = True, duration = 0\<rparr>,
      \<lparr>u_x = 3, u_y = 16, u_type = 2, u_active = True, duration = 0\<rparr>,
      \<lparr>u_x = 16, u_y = 16, u_type = 0, u_active = True, duration = 0\<rparr>]\<rparr>"

definition resetGame :: "Globals \<Rightarrow> Globals" where
  "resetGame g =
     (let g1 = initPowerUps (initGhosts (initBoard g))
      in g1\<lparr>pacman := \<lparr>p_x = 1, p_y = 1, dirX = 0, dirY = 0, p_speed = 0.1\<rparr>,
            score := 0, lives := 3, gameTime := 0, frameCount := 0,
            powerUpTimer := 0, activePowerUp := - 1, gameState := MENU\<rparr>)"

section \<open>Win condition\<close>

definition allPelletsEaten :: "board \<Rightarrow> bool" where
  "allPelletsEaten b = list_all (\<lambda>i. list_all (\<lambda>j. b i j \<noteq> 1) [0..<COLS]) [0..<ROWS]"

definition pelletCells :: "board \<Rightarrow> (nat \<times> nat) set" where
  "pelletCells b = Set.filter (\<lambda>(i, j). b i j = 1) ({0..<ROWS} \<times> {0..<COLS})"

definition pelletCount :: "board \<Rightarrow> nat" where
  "pelletCount b = card (pelletCells b)"

section \<open>Ghost movement\<close>

definition ghostTarget :: "Globals \<Rightarrow> Ghost \<Rightarrow> real \<times> real \<times> nat" where
  "ghostTarget g gh =
     (let p = pacman g in
      if behavior gh = 0 then (p_x p, p_y p, rand_pos g)
      else if behavior gh = 1 then
        (p_x p + real_of_int (dirX p * 4), p_y p + real_of_int (dirY p * 4), rand_pos g)
      else if behavior gh = 2 then
        (p_x p + (p_x p - g_x (ghosts g ! 0)), p_y p + (p_y p - g_y (ghosts g ! 0)), rand_pos g)
      else if behavior gh = 3 then
        (if c_int (specialTimer gh) smod 5 = 0 then
           (real_of_int (int (rand_seq g (rand_pos g)) smod int COLS),
            real_of_int (int (rand_seq g (Suc (rand_pos g))) smod int ROWS),
            Suc (Suc (rand_pos g)))
         else (p_x p, p_y p, rand_pos g))
      else (p_x p, p_y p, rand_pos g))"

definition updateGhost :: "Globals \<Rightarrow> nat \<Rightarrow> err + Globals" where
  "updateGhost g i =
     (if activePowerUp g = 1 then Inr g
      else
        let gh0 = ghosts g ! i;
            gh1 = gh0\<lparr>specialTimer := specialTimer gh0 + 0.016\<rparr>;
            gh2 = (if gameTime g smod 30 = 0 \<and> gameTime g > 0
                   then gh1\<lparr>g_speed := g_speed gh1 + 0.001\<rparr> else gh1);
            g2 = g\<lparr>ghosts := (ghosts g)[i := gh2]\<rparr>
        in case ghostTarget g2 gh2 of (targetX, targetY, rp) \<Rightarrow>
          (let g3 = g2\<lparr>rand_pos := rp\<rparr>;
               dx = targetX - g_x gh2;
               dy = targetY - g_y gh2;
               dist = sqrt (dx * dx + dy * dy)
           in if dist > 0 then
                (let nextX = g_x gh2 + (dx / dist) * g_speed gh2;
                     nextY = g_y gh2 + (dy / dist) * g_speed gh2
                 in case readBoard (board g3) (c_int nextY) (c_int nextX) of
                      Inl e \<Rightarrow> Inl e
                    | Inr v \<Rightarrow>
                        Inr (if v \<noteq> 2
                             then g3\<lparr>ghosts := (ghosts g3)[i := gh2\<lparr>g_x := nextX, g_y := nextY\<rparr>]\<rparr>
                             else g3))
              else Inr g3))"

fun updateGhosts :: "nat list \<Rightarrow> Globals \<Rightarrow> err + Globals" where
  "updateGhosts [] g = Inr g"
| "updateGhosts (i # is) g =
     (case updateGhost g i of Inl e \<Rightarrow> Inl e | Inr g' \<Rightarrow> updateGhosts is g')"

definition moveGhosts :: "Globals \<Rightarrow> err + Globals" where
  "moveGhosts g = updateGhosts [0..<length (ghosts g)] g"

section \<open>The simulation step\<close>

definition tickCounters :: "Globals \<Rightarrow> Globals" where
  "tickCounters g =
     (let g1 = g\<lparr>frameCount := frameCount g + 1\<rparr>
      in if frameCount g1 smod 60 = 0 then g1\<lparr>gameTime := gameTime g1 + 1\<rparr> else g1)"

definition movePacman :: "Globals \<Rightarrow> err + Globals" where
  "movePacman g =
     (let p = pacman g;
          nextX = p_x p + real_of_int (dirX p) * p_speed p;
          nextY = p_y p + real_of_int (dirY p) * p_speed p
      in case readBoard (board g) (c_int nextY) (c_int nextX) of
           Inl e \<Rightarrow> Inl e
         | Inr v \<Rightarrow> Inr (if v \<noteq> 2 then g\<lparr>pacman := p\<lparr>p_x := nextX, p_y := nextY\<rparr>\<rparr> else g))"

definition eatPellet :: "Globals \<Rightarrow> err + Globals" where
  "eatPellet g =
     (let r = c_int (p_y (pacman g)); c = c_int (p_x (pacman g))
      in case readBoard (board g) r c of
           Inl e \<Rightarrow> Inl e
         | Inr v \<Rightarrow>
             Inr (if v = 1
                  then g\<lparr>board := setCell (board g) (nat r) (nat c) 0, score := score g + 10\<rparr>
                  else g))"

fun pickPowerUp :: "int \<Rightarrow> int \<Rightarrow> PowerUp list \<Rightarrow> (int \<times> PowerUp list) option" where
  "pickPowerUp cx cy [] = None"
| "pickPowerUp cx cy (u # us) =
     (if c_int (u_x u) = cx \<and> c_int (u_y u) = cy \<and> u_active u
      then Some (u_type u, u\<lparr>u_active := False\<rparr> # us)
      else (case pickPowerUp cx cy us of
              None \<Rightarrow> None
            | Some (t, us') \<Rightarrow> Some (t, u # us')))"

definition collectPowerUp :: "Globals \<Rightarrow> err + Globals" where
  "collectPowerUp g =
     (let r = c_int (p_y (pacman g)); c = c_int (p_x (pacman g))
      in case readBoard (board g) r c of
           Inl e \<Rightarrow> Inl e
         | Inr v \<Rightarrow>
             Inr (if v = 3 then
                    (let g1 = g\<lparr>board := setCell (board g) (nat r) (nat c) 0\<rparr>
                     in case pickPowerUp c r (powerUps g1) of
                          None \<Rightarrow> g1
                        | Some (t, us) \<Rightarrow>
                            (let g2 = g1\<lparr>activePowerUp := t, powerUpTimer := 5,
                                         powerUps := us, score := score g1 + 50\<rparr>
                             in if activePowerUp g2 = 2
                                then g2\<lparr>pacman := (pacman g2)\<lparr>p_speed := 0.15\<rparr>\<rparr>
                                else g2))
                  else g))"

definition updatePowerUpTimer :: "Globals \<Rightarrow> Globals" where
  "updatePowerUpTimer g =
     (if powerUpTimer g > 0 then
        (let g1 = g\<lparr>powerUpTimer := powerUpTimer g - 0.016\<rparr>
         in if powerUpTimer g1 \<le> 0
            then g1\<lparr>activePowerUp := - 1, pacman := (pacman g1)\<lparr>p_speed := 0.1\<rparr>\<rparr>
            else g1)
      else g)"

definition near :: "Pacman \<Rightarrow> Ghost \<Rightarrow> bool" where
  "near p gh \<longleftrightarrow> \<bar>p_x p - g_x gh\<bar> < 0.6 \<and> \<bar>p_y p - g_y gh\<bar> < 0.6"

definition collisionStep :: "nat \<Rightarrow> Globals \<Rightarrow> Globals" where
  "collisionStep i g =
     (if near (pacman g) (ghosts g ! i) then
        (if activePowerUp g = 0
         then g\<lparr>ghosts := (ghosts g)[i := (ghosts g ! i)\<lparr>g_x := 10, g_y := 10\<rparr>],
                score := score g + 100\<rparr>
         else
           (let g1 = initGhosts (g\<lparr>lives := lives g - 1,
                                    pacman := (pacman g)\<lparr>p_x := 1, p_y := 1\<rparr>\<rparr>)
            in if lives g1 \<le> 0 then saveHighScore (g1\<lparr>gameState := GAMEOVER\<rparr>) else g1))
      else g)"

lemma length_ghosts_collisionStep:
  "length (ghosts (collisionStep i g)) \<le> max 4 (length (ghosts g))"
  by (simp add: collisionStep_def initGhosts_def saveHighScore_def Let_def max_def)

function collisionLoop :: "nat \<Rightarrow> Globals \<Rightarrow> Globals" where
  "collisionLoop i g =
     (if i < length (ghosts g) then collisionLoop (Suc i) (collisionStep i g) else g)"
  by pat_completeness auto
termination
proof (relation "measure (\<lambda>(i, g). max 4 (length (ghosts g)) - i)")
  show "wf (measure (\<lambda>(i, g). max 4 (length (ghosts g)) - i))"
    by simp
next
  fix i :: nat and g :: Globals
  assume "i < length (ghosts g)"
  moreover have "length (ghosts (collisionStep i g)) \<le> max 4 (length (ghosts g))"
    by (rule length_ghosts_collisionStep)
  ultimately show "((Suc i, collisionStep i g), (i, g))
      \<in> measure (\<lambda>(i, g). max 4 (length (ghosts g)) - i)"
    by simp
qed

definition winCheck :: "Globals \<Rightarrow> Globals" where
  "winCheck g = (if allPelletsEaten (board g) then saveHighScore (g\<lparr>gameState := WIN\<rparr>) else g)"

definition updateGame :: "Globals \<Rightarrow> err + Globals" where
  "updateGame g =
     (if gameState g \<noteq> PLAYING then Inr g
      else
        (case movePacman (tickCounters g) of Inl e \<Rightarrow> Inl e | Inr g1 \<Rightarrow>
        (case eatPellet g1 of Inl e \<Rightarrow> Inl e | Inr g2 \<Rightarrow>
        (case collectPowerUp g2 of Inl e \<Rightarrow> Inl e | Inr g3 \<Rightarrow>
        (case moveGhosts (updatePowerUpTimer g3) of Inl e \<Rightarrow> Inl e | Inr g4 \<Rightarrow>
           Inr (winCheck (collisionLoop 0 g4)))))))"


section \<open>Keyboard input and program start\<close>

text \<open>
  \<^verbatim>\<open>keyboard\<close> returns \<open>None\<close> where the program calls \<^verbatim>\<open>exit(0)\<close> (the Escape key).
\<close>

definition keyboard :: "char \<Rightarrow> Globals \<Rightarrow> Globals option" where
  "keyboard key g =
     (if key = CHR 0x1B then None
      else if key = CHR '' '' then
        Some (if gameState g = MENU then (resetGame g)\<lparr>gameState := PLAYING\<rparr> else g)
      else if key = CHR ''r'' \<or> key = CHR ''R'' then
        Some (if gameState g = MENU \<and> previousState g = PAUSED then g\<lparr>gameState := PLAYING\<rparr> else g)
      else if key = CHR ''h'' \<or> key = CHR ''H'' then
        Some (if gameState g = MENU then g\<lparr>gameState := HELP\<rparr> else g)
      else if key = CHR ''s'' \<or> key = CHR ''S'' then
        Some (if gameState g = MENU then g\<lparr>gameState := HIGHSCORE\<rparr>
              else if gameState g = PLAYING then g\<lparr>pacman := (pacman g)\<lparr>dirX := 0, dirY := - 1\<rparr>\<rparr>
              else g)
      else if key = CHR ''m'' \<or> key = CHR ''M'' then
        Some (if gameState g \<noteq> PLAYING then g\<lparr>gameState := MENU\<rparr> else g)
      else if key = CHR ''p'' \<or> key = CHR ''P'' then
        Some (if gameState g = PLAYING then g\<lparr>previousState := PAUSED, gameState := PAUSED\<rparr>
              else if gameState g = PAUSED then g\<lparr>gameState := PLAYING\<rparr>
              else g)
      else if key = CHR ''w'' \<or> key = CHR ''W'' then
        Some (if gameState g = PLAYING then g\<lparr>pacman := (pacman g)\<lparr>dirX := 0, dirY := 1\<rparr>\<rparr> else g)
      else if key = CHR ''a'' \<or> key = CHR ''A'' then
        Some (if gameState g = PLAYING then g\<lparr>pacman := (pacman g)\<lparr>dirX := - 1, dirY := 0\<rparr>\<rparr> else g)
      else if key = CHR ''d'' \<or> key = CHR ''D'' then
        Some (if gameState g = PLAYING then g\<lparr>pacman := (pacman g)\<lparr>dirX := 1, dirY := 0\<rparr>\<rparr> else g)
      else Some g)"

text \<open>
  The globals as the program's initialisers leave them, for a given random sequence and
  a given high-score file; \<^verbatim>\<open>main\<close> then loads the high score and resets the game.
\<close>

definition boot :: "(nat \<Rightarrow> nat) \<Rightarrow> hs_file \<Rightarrow> bool \<Rightarrow> Globals" where
  "boot rs f w =
     \<lparr>gameState = MENU, previousState = MENU, score = 0, lives = 3, highScore = 0,
      gameTime = 0, frameCount = 0,
      pacman = \<lparr>p_x = 0, p_y = 0, dirX = 0, dirY = 0, p_speed = 0\<rparr>,
      ghosts = [], powerUps = [], powerUpTimer = 0, activePowerUp = - 1,
      board = (\<lambda>i j. 0), totalPellets = 0,
      rand_seq = rs, rand_pos = 0, hs_store = f, hs_writable = w\<rparr>"

definition main_init :: "(nat \<Rightarrow> nat) \<Rightarrow> hs_file \<Rightarrow> bool \<Rightarrow> Globals" where
  "main_init rs f w = resetGame (loadHighScore (boot rs f w))"

text \<open>The session right after the space bar started it from the menu.\<close>

definition startState :: Globals where
  "startState = (resetGame (main_init (\<lambda>n. 0) Missing True))\<lparr>gameState := PLAYING\<rparr>"


section \<open>Concrete states\<close>

text \<open>
  A session in which the Freeze power-up is active and the avatar, heading right along the
  bottom corridor, is one step away from the pellet of row 1, column 2.
\<close>

definition frozenState :: Globals where
  "frozenState = startState\<lparr>activePowerUp := 1, powerUpTimer := 3,
      pacman := \<lparr>p_x = 1.9, p_y = 1, dirX = 1, dirY = 0, p_speed = 0.1\<rparr>\<rparr>"

text \<open>The maze that \<^verbatim>\<open>initBoard\<close> builds, cell by cell.\<close>

definition mazeCell :: "nat \<Rightarrow> nat \<Rightarrow> int" where
  "mazeCell i j =
     (if (i, j) \<in> {(3, 3), (3, 16), (16, 3), (16, 16)} then 3
      else if (i, j) \<in> {(1, 1), (18, 18), (18, 1), (1, 18), (10, 10)} then 0
      else cellInit i j)"


text \<open>What an invincible avatar does to a pursuer: one within reach is sent to the centre cell.\<close>

definition relocate :: "Pacman \<Rightarrow> Ghost \<Rightarrow> Ghost" where
  "relocate p gh = (if near p gh then gh\<lparr>g_x := 10, g_y := 10\<rparr> else gh)"

text \<open>The amount \<^verbatim>\<open>updateGhost\<close> adds to a pursuer's speed in the tick that leads to state \<open>g\<close>.\<close>

definition speedUp :: "Globals \<Rightarrow> real" where
  "speedUp g = (if activePowerUp g \<noteq> 1 \<and> gameTime g smod 30 = 0 \<and> gameTime g > 0 then 0.001 else 0)"


text \<open>
  A later moment of a session: Freeze is active, the pursuers have been sped up once, and
  Blinky stands (frozen) right in front of the avatar.
\<close>

definition caughtState :: Globals where
  "caughtState = frozenState\<lparr>gameTime := 31, frameCount := 1860,
      ghosts := [blinky\<lparr>g_x := 2.3, g_y := 1, g_speed := 0.1\<rparr>, pinky\<lparr>g_speed := 0.095\<rparr>,
                 inky\<lparr>g_speed := 0.098\<rparr>, clyde\<lparr>g_speed := 0.09\<rparr>]\<rparr>"

text \<open>Clyde with a given timer, and a session whose random sequence is 0, 1, 2, ...\<close>

definition clydeAt :: "real \<Rightarrow> Ghost" where
  "clydeAt t = clyde\<lparr>specialTimer := t\<rparr>"

definition countingState :: Globals where
  "countingState = startState\<lparr>rand_seq := (\<lambda>n. n)\<rparr>"


text \<open>
  The end of a session: one life left, every pellet eaten but the one of row 1, column 2,
  which the avatar reaches in the next tick, with Blinky (frozen) within reach.
\<close>

definition lastPelletBoard :: board where
  "lastPelletBoard = (\<lambda>i j. if i = 1 \<and> j = 2 then 1 else if mazeCell i j = 2 then 2 else 0)"

definition lastPelletState :: Globals where
  "lastPelletState = caughtState\<lparr>lives := 1, score := 3260, gameTime := 120, frameCount := 7210,
      board := lastPelletBoard,
      powerUps := map (\<lambda>u. u\<lparr>u_active := False\<rparr>) (powerUps startState)\<rparr>"

text \<open>
  The loop invariant of the collision pass when Invincibility is not active, relative to the
  state \<open>g0\<close> the pass started in: either nothing was saved yet, or the session is over and
  the high score was saved once.
\<close>

definition saved :: "Globals \<Rightarrow> Globals \<Rightarrow> bool" where
  "saved g0 g \<longleftrightarrow>
     score g = score g0 \<and> activePowerUp g = activePowerUp g0 \<and> hs_writable g = hs_writable g0 \<and>
     (gameState g = PLAYING \<and> hs_store g = hs_store g0 \<and> highScore g = highScore g0
      \<or> gameState g = GAMEOVER \<and> hs_store g = hs_store (saveHighScore g0)
          \<and> highScore g = highScore (saveHighScore g0))"


text \<open>The same end of a session, with a stored best score of 100 and a store that cannot be opened for writing.\<close>

definition unwritableState :: Globals where
  "unwritableState = lastPelletState\<lparr>highScore := 100, hs_store := Holds 100, hs_writable := False\<rparr>"

text \<open>
  The tick on which a Freeze runs out: 0.008 seconds are left on the countdown, the avatar
  moves right along the bottom corridor, and every pursuer is on a line with its target.
  \<open>expiryMid\<close> is the state of that tick after the countdown step, \<open>expiryEnd\<close> the
  state at its end.
\<close>

definition expiryState :: Globals where
  "expiryState = startState\<lparr>gameTime := 20, frameCount := 1200, activePowerUp := 1,
      powerUpTimer := 0.008,
      pacman := \<lparr>p_x = 1.9, p_y = 1, dirX = 1, dirY = 0, p_speed = 0.1\<rparr>,
      ghosts := [blinky\<lparr>g_x := 5, g_y := 1\<rparr>, pinky\<lparr>g_x := 6, g_y := 5\<rparr>,
                 inky\<lparr>g_x := 12, g_y := 1\<rparr>, clyde\<lparr>g_x := 2, g_y := 7, specialTimer := 2\<rparr>]\<rparr>"

definition expiryMid :: Globals where
  "expiryMid = expiryState\<lparr>frameCount := 1201,
      pacman := \<lparr>p_x = 2, p_y = 1, dirX = 1, dirY = 0, p_speed = 0.1\<rparr>,
      board := setCell (board startState) 1 2 0, score := 10,
      powerUpTimer := - 0.008, activePowerUp := - 1\<rparr>"

definition expiryEnd :: Globals where
  "expiryEnd = expiryMid\<lparr>ghosts :=
      [blinky\<lparr>g_x := 4.96, g_y := 1, specialTimer := 0.016\<rparr>,
       pinky\<lparr>g_x := 6, g_y := 4.965, specialTimer := 0.016\<rparr>,
       inky\<lparr>g_x := 11.962, g_y := 1, specialTimer := 0.016\<rparr>,
       clyde\<lparr>g_x := 2, g_y := 6.97, specialTimer := 2.016\<rparr>]\<rparr>"




section \<open>Sessions\<close>

text \<open>
  The states a run of the program can be in: the state \<^verbatim>\<open>main\<close> leaves behind, for any
  random sequence and any high-score file, and from there any interleaving of key presses
  (the GLUT keyboard callback) and timer ticks (\<^verbatim>\<open>updateGame\<close>). A tick whose board
  access is out of range has no successor state.
\<close>

inductive reachable :: "Globals \<Rightarrow> bool" where
  start: "reachable (main_init rs f w)"
| key: "reachable g \<Longrightarrow> keyboard k g = Some g' \<Longrightarrow> reachable g'"
| tick: "reachable g \<Longrightarrow> updateGame g = Inr g' \<Longrightarrow> reachable g'"


text \<open>
  Where the avatar and the pursuers are kept by the wall test: strictly inside the border,
  whose cells are all walls. \<open>mazeWalls\<close> says more: the walls of the board are still the
  walls \<^verbatim>\<open>initBoard\<close> built.
\<close>

definition inside :: "real \<Rightarrow> real \<Rightarrow> bool" where
  "inside x y \<longleftrightarrow> 1 \<le> x \<and> x < 19 \<and> 1 \<le> y \<and> y < 19"

definition borderWalls :: "board \<Rightarrow> bool" where
  "borderWalls b \<longleftrightarrow> (\<forall>i<ROWS. \<forall>j<COLS. i = 0 \<or> j = 0 \<or> i = 19 \<or> j = 19 \<longrightarrow> b i j = 2)"

definition inMaze :: "Globals \<Rightarrow> bool" where
  "inMaze g \<longleftrightarrow>
     borderWalls (board g) \<and> inside (p_x (pacman g)) (p_y (pacman g))
     \<and> \<bar>dirX (pacman g)\<bar> \<le> 1 \<and> \<bar>dirY (pacman g)\<bar> \<le> 1
     \<and> 0 \<le> p_speed (pacman g) \<and> p_speed (pacman g) \<le> 1
     \<and> (\<forall>gh \<in> set (ghosts g). inside (g_x gh) (g_y gh) \<and> 0 \<le> g_speed gh)"

definition mazeWalls :: "board \<Rightarrow> bool" where
  "mazeWalls b \<longleftrightarrow> (\<forall>i<ROWS. \<forall>j<COLS. b i j = 2 \<longleftrightarrow> mazeCell i j = 2)"


text \<open>
  \<^verbatim>\<open>updateGhost\<close> in two steps: \<open>aged\<close> is the pursuer after its timer and speed updates,
  \<open>ghostMove\<close> the move of that pursuer towards a target. Lemma \<open>updateGhost_alt\<close> below
  shows that \<open>updateGhost\<close> is their composition.
\<close>

definition aged :: "Globals \<Rightarrow> Ghost \<Rightarrow> Ghost" where
  "aged g gh = gh\<lparr>specialTimer := specialTimer gh + 0.016, g_speed := g_speed gh + speedUp g\<rparr>"

definition ghostMove :: "board \<Rightarrow> Ghost \<Rightarrow> real \<Rightarrow> real \<Rightarrow> err + Ghost" where
  "ghostMove b gh tx ty =
     (let dx = tx - g_x gh; dy = ty - g_y gh; dist = sqrt (dx * dx + dy * dy)
      in if dist > 0 then
           (let nextX = g_x gh + (dx / dist) * g_speed gh;
                nextY = g_y gh + (dy / dist) * g_speed gh
            in case readBoard b (c_int nextY) (c_int nextX) of
                 Inl e \<Rightarrow> Inl e
               | Inr v \<Rightarrow> Inr (if v \<noteq> 2 then gh\<lparr>g_x := nextX, g_y := nextY\<rparr> else gh))
         else Inr gh)"


text \<open>
  The number of speed increments a pursuer has received after \<open>n\<close> ticks without a Freeze
  and without a life lost: one for every tick whose game time (the tick number divided by
  60) is a positive multiple of 30. \<open>upsClosed\<close> is its closed form in the game time and
  the tick within the second; \<open>spd s0 n\<close> is the speed of a pursuer that started at \<open>s0\<close>.
\<close>

fun ups :: "nat \<Rightarrow> nat" where
  "ups 0 = 0"
| "ups (Suc n) = ups n + (if (Suc n div 60) mod 30 = 0 \<and> 0 < Suc n div 60 then 1 else 0)"


definition spd :: "real \<Rightarrow> nat \<Rightarrow> real" where
  "spd s0 n = s0 + real (ups n) / 1000"


subsection \<open>A long session\<close>

text \<open>
  A session of 90063 ticks, about 25 minutes of play. The random sequence \<open>clydeRand\<close>
  makes \<^verbatim>\<open>rand() % 20\<close> return 19, 10 for the first ten draws of a coordinate pair and 10, 0
  from then on. The player starts the session with the space bar and presses \<^verbatim>\<open>a\<close>;
  after tick 248 the player presses \<^verbatim>\<open>d\<close>, after tick 341 \<^verbatim>\<open>s\<close>. The avatar waits in
  its corner, walks right along the bottom corridor to (10.3, 1) and stays there, heading
  for the border wall below it. \<open>chase n\<close> is the state after \<open>n\<close> ticks, or the error of
  the first tick that fails.
\<close>

definition clydeRand :: "nat \<Rightarrow> nat" where
  "clydeRand k = (if k < 20 then (if even k then 19 else 10) else (if even k then 10 else 0))"






text \<open>
  What holds of that session after \<open>n\<close> ticks. \<open>scene n k g\<close>: the counters, the board and
  the avatar after \<open>n\<close> ticks, with the heading the player chose after tick \<open>k\<close>; no power-up
  was taken, the pellet of cell (2, 2) is still there.
\<close>

definition avatarX :: "nat \<Rightarrow> real" where
  "avatarX n = (if n \<le> 248 then 1 else if n \<le> 341 then 1 + 0.1 * real (n - 248) else 10.3)"

definition headingX :: "nat \<Rightarrow> int" where
  "headingX n = (if n < 248 then - 1 else if n < 341 then 1 else 0)"

definition headingY :: "nat \<Rightarrow> int" where
  "headingY n = (if n < 341 then 0 else - 1)"

definition scene :: "nat \<Rightarrow> nat \<Rightarrow> Globals \<Rightarrow> bool" where
  "scene n k g \<longleftrightarrow>
     gameState g = PLAYING \<and> frameCount g = int n \<and> gameTime g = int (n div 60)
     \<and> activePowerUp g = - 1 \<and> powerUpTimer g = 0 \<and> rand_seq g = clydeRand
     \<and> mazeWalls (board g) \<and> board g 2 2 = 1 \<and> (\<forall>j<COLS. board g 1 j \<noteq> 3)
     \<and> board g 1 (nat (c_int (avatarX n))) \<noteq> 1
     \<and> pacman g = \<lparr>p_x = avatarX n, p_y = 1, dirX = headingX k, dirY = headingY k, p_speed = 0.1\<rparr>"




















section \<open>Supporting lemmas\<close>


declare collisionLoop.simps [simp del]

lemma updateGhost_frame:
  "updateGhost g i = Inr g' \<Longrightarrow> g' = g\<lparr>ghosts := ghosts g', rand_pos := rand_pos g'\<rparr>"
  unfolding updateGhost_def Let_def
  by (auto split: if_splits prod.splits sum.splits)

lemma updateGhosts_frame:
  "updateGhosts is g = Inr g' \<Longrightarrow> g' = g\<lparr>ghosts := ghosts g', rand_pos := rand_pos g'\<rparr>"
proof (induction "is" arbitrary: g)
  case Nil
  then show ?case by simp
next
  case (Cons i "is")
  from Cons.prems obtain g1 where u: "updateGhost g i = Inr g1" and r: "updateGhosts is g1 = Inr g'"
    by (auto split: sum.splits)
  from updateGhost_frame[OF u] Cons.IH[OF r] show ?case
    by (metis (no_types, lifting) Globals.surjective Globals.update_convs(9,16))
qed

lemma moveGhosts_frame:
  "moveGhosts g = Inr g' \<Longrightarrow> g' = g\<lparr>ghosts := ghosts g', rand_pos := rand_pos g'\<rparr>"
  unfolding moveGhosts_def by (rule updateGhosts_frame)

lemma moveGhosts_board: "moveGhosts g = Inr g' \<Longrightarrow> board g' = board g"
  by (drule moveGhosts_frame) (erule ssubst, simp)

lemma moveGhosts_gameState: "moveGhosts g = Inr g' \<Longrightarrow> gameState g' = gameState g"
  by (drule moveGhosts_frame) (erule ssubst, simp)

lemma collisionStep_board: "board (collisionStep i g) = board g"
  by (simp add: collisionStep_def initGhosts_def saveHighScore_def Let_def)

lemma collisionLoop_board: "board (collisionLoop i g) = board g"
proof (induction i g rule: collisionLoop.induct)
  case (1 i g)
  then show ?case by (subst collisionLoop.simps) (simp add: collisionStep_board)
qed

lemma collisionStep_gameState:
  "gameState (collisionStep i g) = gameState g \<or> gameState (collisionStep i g) = GAMEOVER"
  by (simp add: collisionStep_def initGhosts_def saveHighScore_def Let_def)

lemma collisionLoop_not_WIN:
  "gameState g \<noteq> WIN \<Longrightarrow> gameState (collisionLoop i g) \<noteq> WIN"
proof (induction i g rule: collisionLoop.induct)
  case (1 i g)
  show ?case
  proof (cases "i < length (ghosts g)")
    case True
    from collisionStep_gameState[of i g] "1.prems"
    have "gameState (collisionStep i g) \<noteq> WIN" by auto
    with "1.IH"[OF True] show ?thesis using True by (subst collisionLoop.simps) simp
  next
    case False
    with "1.prems" show ?thesis by (subst collisionLoop.simps) simp
  qed
qed

lemma finite_pelletCells: "finite (pelletCells b)"
  by (simp add: pelletCells_def)

lemma pelletCells_iff: "(i, j) \<in> pelletCells b \<longleftrightarrow> i < ROWS \<and> j < COLS \<and> b i j = 1"
  by (auto simp: pelletCells_def)

lemma allPelletsEaten_iff: "allPelletsEaten b \<longleftrightarrow> pelletCount b = 0"
proof -
  have "allPelletsEaten b \<longleftrightarrow> pelletCells b = {}"
    by (auto simp: allPelletsEaten_def list_all_iff pelletCells_def)
  then show ?thesis by (simp add: pelletCount_def finite_pelletCells)
qed

lemma pelletCells_setCell:
  "v \<noteq> 1 \<Longrightarrow> pelletCells (setCell b r c v) = pelletCells b - {(r, c)}"
  by (auto simp: pelletCells_def setCell_def split: if_splits)

lemma pelletCount_setCell_le:
  "v \<noteq> 1 \<Longrightarrow> pelletCount (setCell b r c v) \<le> pelletCount b"
  by (simp add: pelletCount_def pelletCells_setCell card_Diff1_le)

lemma pelletCount_setCell_eat:
  "r < ROWS \<Longrightarrow> c < COLS \<Longrightarrow> b r c = 1 \<Longrightarrow> Suc (pelletCount (setCell b r c 0)) = pelletCount b"
proof -
  assume "r < ROWS" "c < COLS" "b r c = 1"
  then have "(r, c) \<in> pelletCells b" by (simp add: pelletCells_iff)
  then have "Suc (card (pelletCells b - {(r, c)})) = card (pelletCells b)"
    by (rule card_Suc_Diff1[OF finite_pelletCells])
  then show ?thesis by (simp add: pelletCount_def pelletCells_setCell)
qed

lemma pelletCount_setCell_same:
  "b r c \<noteq> 1 \<Longrightarrow> v \<noteq> 1 \<Longrightarrow> pelletCount (setCell b r c v) = pelletCount b"
  by (simp add: pelletCount_def pelletCells_setCell pelletCells_iff)

lemma tickCounters_board: "board (tickCounters g) = board g"
  by (simp add: tickCounters_def Let_def)

lemma tickCounters_gameState: "gameState (tickCounters g) = gameState g"
  by (simp add: tickCounters_def Let_def)

lemma movePacman_board: "movePacman g = Inr g' \<Longrightarrow> board g' = board g"
  by (auto simp: movePacman_def Let_def split: sum.splits if_splits)

lemma movePacman_gameState: "movePacman g = Inr g' \<Longrightarrow> gameState g' = gameState g"
  by (auto simp: movePacman_def Let_def split: sum.splits if_splits)

lemma eatPellet_pelletCount: "eatPellet g = Inr g' \<Longrightarrow> pelletCount (board g') \<le> pelletCount (board g)"
  by (auto simp: eatPellet_def Let_def pelletCount_setCell_le split: sum.splits if_splits)

lemma eatPellet_gameState: "eatPellet g = Inr g' \<Longrightarrow> gameState g' = gameState g"
  by (auto simp: eatPellet_def Let_def split: sum.splits if_splits)

lemma collectPowerUp_pelletCount:
  "collectPowerUp g = Inr g' \<Longrightarrow> pelletCount (board g') \<le> pelletCount (board g)"
  by (auto simp: collectPowerUp_def Let_def pelletCount_setCell_le
           split: sum.splits if_splits option.splits prod.splits)

lemma collectPowerUp_gameState: "collectPowerUp g = Inr g' \<Longrightarrow> gameState g' = gameState g"
  by (auto simp: collectPowerUp_def Let_def split: sum.splits if_splits option.splits prod.splits)

lemma updatePowerUpTimer_board: "board (updatePowerUpTimer g) = board g"
  by (simp add: updatePowerUpTimer_def Let_def)

lemma updatePowerUpTimer_gameState: "gameState (updatePowerUpTimer g) = gameState g"
  by (simp add: updatePowerUpTimer_def Let_def)

lemma winCheck_board: "board (winCheck g) = board g"
  by (simp add: winCheck_def saveHighScore_def Let_def)

lemma winCheck_gameState:
  "gameState g \<noteq> WIN \<Longrightarrow> gameState (winCheck g) = WIN \<longleftrightarrow> pelletCount (board g) = 0"
  by (simp add: winCheck_def saveHighScore_def Let_def allPelletsEaten_iff)

lemma updateGame_phases:
  assumes "gameState g = PLAYING" "updateGame g = Inr g'"
  obtains g1 g2 g3 g4 where
    "movePacman (tickCounters g) = Inr g1" "eatPellet g1 = Inr g2" "collectPowerUp g2 = Inr g3"
    "moveGhosts (updatePowerUpTimer g3) = Inr g4" "g' = winCheck (collisionLoop 0 g4)"
  using assms unfolding updateGame_def by (auto split: sum.splits)



lemma startState_key: "keyboard (CHR '' '') (main_init (\<lambda>n. 0) Missing True) = Some startState"
  by (simp add: keyboard_def startState_def main_init_def resetGame_def Let_def)

lemma fold_initStep_row:
  "fst (fold (initStep i) [0..<n] s) i' j = (if i' = i \<and> j < n then cellInit i j else fst s i' j)"
  by (induction n) (auto simp: initStep_def setCell_def split: prod.splits)

lemma fold_initStep_rows:
  "fst (fold (\<lambda>i s. fold (initStep i) [0..<m] s) [0..<n] s) i' j
     = (if i' < n \<and> j < m then cellInit i' j else fst s i' j)"
  by (induction n) (auto simp: fold_initStep_row)

lemma initLoops_cell:
  "fst (initLoops b) i j = (if i < ROWS \<and> j < COLS then cellInit i j else b i j)"
  by (simp add: initLoops_def fold_initStep_rows)

lemma board_initBoard:
  "i < ROWS \<Longrightarrow> j < COLS \<Longrightarrow> board (initBoard g) i j = mazeCell i j"
  using initLoops_cell[of "board g" i j]
  by (auto simp: initBoard_def Let_def setCell_def mazeCell_def split: prod.splits)

lemma board_resetGame:
  "i < ROWS \<Longrightarrow> j < COLS \<Longrightarrow> board (resetGame g) i j = mazeCell i j"
  by (simp add: resetGame_def Let_def initPowerUps_def initGhosts_def board_initBoard)


subsection \<open>Evaluating concrete states\<close>

lemma smod_nonneg: "0 \<le> a \<Longrightarrow> 0 < b \<Longrightarrow> a smod b = a mod (b::int)"
  by (simp add: signed_modulo_int_def sgn_if)

lemma board_startState: "i < ROWS \<Longrightarrow> j < COLS \<Longrightarrow> board startState i j = mazeCell i j"
  by (simp add: startState_def board_resetGame)

lemma startState_fields:
  "gameState startState = PLAYING" "frameCount startState = 0" "gameTime startState = 0"
  "score startState = 0" "lives startState = 3" "highScore startState = 0"
  "ghosts startState = [blinky, pinky, inky, clyde]"
  "pacman startState = \<lparr>p_x = 1, p_y = 1, dirX = 0, dirY = 0, p_speed = 0.1\<rparr>"
  "powerUpTimer startState = 0" "activePowerUp startState = - 1"
  "hs_store startState = Missing" "hs_writable startState = True" "rand_pos startState = 0"
  "powerUps startState =
     [\<lparr>u_x = 3, u_y = 3, u_type = 0, u_active = True, duration = 0\<rparr>,
      \<lparr>u_x = 16, u_y = 3, u_type = 1, u_active = True, duration = 0\<rparr>,
      \<lparr>u_x = 3, u_y = 16, u_type = 2, u_active = True, duration = 0\<rparr>,
      \<lparr>u_x = 16, u_y = 16, u_type = 0, u_active = True, duration = 0\<rparr>]"
  by (simp_all add: startState_def main_init_def boot_def loadHighScore_def resetGame_def
        initPowerUps_def initGhosts_def initBoard_def Let_def split: prod.splits)

lemma c_int_numeral [simp]: "c_int (numeral n) = numeral n" "c_int 1 = 1" "c_int 0 = 0"
  by (simp_all add: c_int_def)

lemma frozen_tick: "\<exists>g'. updateGame frozenState = Inr g'"
  by (simp add: updateGame_def frozenState_def tickCounters_def movePacman_def Let_def readBoard_def
   board_startState mazeCell_def cellInit_def eatPellet_def collectPowerUp_def updatePowerUpTimer_def
   moveGhosts_def updateGhost_def startState_fields smod_nonneg setCell_def)


lemma not_allPelletsEaten: "i < ROWS \<Longrightarrow> j < COLS \<Longrightarrow> b i j = 1 \<Longrightarrow> \<not> allPelletsEaten b"
  by (simp add: allPelletsEaten_iff pelletCount_def finite_pelletCells)
     (metis empty_iff pelletCells_iff)

lemma setCell_apply: "setCell b r c v i j = (if i = r \<and> j = c then v else b i j)"
  by (simp add: setCell_def)

lemmas tick_defs = updateGame_def tickCounters_def movePacman_def Let_def readBoard_def
   eatPellet_def collectPowerUp_def updatePowerUpTimer_def
   moveGhosts_def updateGhost_def smod_nonneg setCell_apply collisionLoop.simps collisionStep_def
   near_def blinky_def pinky_def inky_def clyde_def

lemma frozen_result:
  "updateGame frozenState = Inr (frozenState\<lparr>frameCount := 1,
      pacman := \<lparr>p_x = 2, p_y = 1, dirX = 1, dirY = 0, p_speed = 0.1\<rparr>,
      board := setCell (board startState) 1 2 0, score := 10, powerUpTimer := 2.984\<rparr>)"
proof -
  have "\<not> allPelletsEaten (setCell (board startState) 1 2 0)"
    by (rule not_allPelletsEaten[of 2 2])
       (simp_all add: setCell_def board_startState mazeCell_def cellInit_def)
  then show ?thesis
    by (simp add: tick_defs frozenState_def startState_fields board_startState mazeCell_def
          cellInit_def winCheck_def)
qed

lemma eatPellet_cell:
  assumes "eatPellet g = Inr g'"
  shows "0 \<le> c_int (p_y (pacman g)) \<and> c_int (p_y (pacman g)) < 20
       \<and> 0 \<le> c_int (p_x (pacman g)) \<and> c_int (p_x (pacman g)) < 20"
  using assms by (auto simp: eatPellet_def Let_def readBoard_def split: if_splits)

lemma eat_frozen:
  "eatPellet (frozenState\<lparr>pacman := \<lparr>p_x = 2, p_y = 1, dirX = 1, dirY = 0, p_speed = 0.1\<rparr>\<rparr>)
     = Inr (frozenState\<lparr>pacman := \<lparr>p_x = 2, p_y = 1, dirX = 1, dirY = 0, p_speed = 0.1\<rparr>,
          board := setCell (board startState) 1 2 0, score := 10\<rparr>)"
  by (simp add: eatPellet_def Let_def readBoard_def frozenState_def board_startState mazeCell_def
        cellInit_def startState_fields)

lemma collisionStep_invincible:
  assumes "activePowerUp g = 0" "i < length (ghosts g)"
  shows "collisionStep i g =
           g\<lparr>ghosts := (ghosts g)[i := relocate (pacman g) (ghosts g ! i)],
             score := score g + (if near (pacman g) (ghosts g ! i) then 100 else 0)\<rparr>"
  using assms by (simp add: collisionStep_def relocate_def)

lemma collisionLoop_invincible:
  assumes "activePowerUp g = 0" "i \<le> length (ghosts g)"
  shows "collisionLoop i g =
           g\<lparr>ghosts := take i (ghosts g) @ map (relocate (pacman g)) (drop i (ghosts g)),
             score := score g + 100 * int (length (filter (near (pacman g)) (drop i (ghosts g))))\<rparr>"
  using assms
proof (induction i g rule: collisionLoop.induct)
  case (1 i g)
  show ?case
  proof (cases "i < length (ghosts g)")
    case False
    with "1.prems" show ?thesis by (subst collisionLoop.simps) simp
  next
    case True
    let ?g1 = "collisionStep i g"
    have s: "?g1 = g\<lparr>ghosts := (ghosts g)[i := relocate (pacman g) (ghosts g ! i)],
             score := score g + (if near (pacman g) (ghosts g ! i) then 100 else 0)\<rparr>"
      using "1.prems"(1) True by (rule collisionStep_invincible)
    have a: "activePowerUp ?g1 = 0" and l: "Suc i \<le> length (ghosts ?g1)"
      using "1.prems"(1) True by (simp_all add: s)
    have d: "drop i (ghosts g) = ghosts g ! i # drop (Suc i) (ghosts g)"
      using True by (simp add: Cons_nth_drop_Suc)
    have t: "take (Suc i) ((ghosts g)[i := relocate (pacman g) (ghosts g ! i)])
              = take i (ghosts g) @ [relocate (pacman g) (ghosts g ! i)]"
      using True by (simp add: take_Suc_conv_app_nth)
    have "collisionLoop i g = collisionLoop (Suc i) ?g1"
      using True by (subst collisionLoop.simps) simp
    also have "\<dots> = ?g1\<lparr>ghosts := take (Suc i) (ghosts ?g1) @ map (relocate (pacman ?g1)) (drop (Suc i) (ghosts ?g1)),
             score := score ?g1 + 100 * int (length (filter (near (pacman ?g1)) (drop (Suc i) (ghosts ?g1))))\<rparr>"
      using "1.IH"[OF True a l] .
    also have "\<dots> = g\<lparr>ghosts := take i (ghosts g) @ map (relocate (pacman g)) (drop i (ghosts g)),
             score := score g + 100 * int (length (filter (near (pacman g)) (drop i (ghosts g))))\<rparr>"
      by (simp add: s t d)
    finally show ?thesis .
  qed
qed

lemma updateGhost_frozen: "activePowerUp g = 1 \<Longrightarrow> updateGhost g i = Inr g"
  by (simp add: updateGhost_def)

lemma updateGhosts_frozen: "activePowerUp g = 1 \<Longrightarrow> updateGhosts is g = Inr g"
  by (induction "is") (simp_all add: updateGhost_frozen)

lemma moveGhosts_frozen: "activePowerUp g = 1 \<Longrightarrow> moveGhosts g = Inr g"
  by (simp add: moveGhosts_def updateGhosts_frozen)

lemma updateGhost_ghosts:
  assumes "updateGhost g i = Inr g'" "i < length (ghosts g)"
  shows "length (ghosts g') = length (ghosts g)"
    and "j \<noteq> i \<Longrightarrow> ghosts g' ! j = ghosts g ! j"
    and "g_speed (ghosts g' ! i) = g_speed (ghosts g ! i) + speedUp g"
    and "behavior (ghosts g' ! i) = behavior (ghosts g ! i)"
  using assms unfolding updateGhost_def Let_def speedUp_def
  by (auto split: if_splits prod.splits sum.splits)





lemma collisionStep_lives_le: "lives (collisionStep i g) \<le> lives g"
  by (simp add: collisionStep_def initGhosts_def saveHighScore_def Let_def)

lemma collisionLoop_lives_le: "lives (collisionLoop i g) \<le> lives g"
proof (induction i g rule: collisionLoop.induct)
  case (1 i g)
  show ?case
  proof (cases "i < length (ghosts g)")
    case True
    from "1.IH"[OF True] collisionStep_lives_le[of i g] show ?thesis
      using True by (subst collisionLoop.simps) simp
  next
    case False
    then show ?thesis by (subst collisionLoop.simps) simp
  qed
qed

lemma map_update_same: "(map f xs)[i := f (xs ! i)] = map f xs"
  by (cases "i < length xs") (simp_all add: list_update_same_conv list_update_beyond)

lemma collisionStep_same_lives:
  assumes "lives (collisionStep i g) = lives g"
  shows "map g_speed (ghosts (collisionStep i g)) = map g_speed (ghosts g)"
    and "activePowerUp g \<noteq> 0 \<Longrightarrow> ghosts (collisionStep i g) = ghosts g"
    and "activePowerUp (collisionStep i g) = activePowerUp g"
  using assms
  by (auto simp: collisionStep_def initGhosts_def saveHighScore_def Let_def map_update
           map_update_same split: if_splits)

lemma collisionStep_keeps:
  "activePowerUp (collisionStep i g) = activePowerUp g" "gameTime (collisionStep i g) = gameTime g"
  "powerUpTimer (collisionStep i g) = powerUpTimer g"
  "p_speed (pacman (collisionStep i g)) = p_speed (pacman g)"
  by (simp_all add: collisionStep_def initGhosts_def saveHighScore_def Let_def)

lemma collisionLoop_keeps:
  "activePowerUp (collisionLoop i g) = activePowerUp g \<and> gameTime (collisionLoop i g) = gameTime g
   \<and> powerUpTimer (collisionLoop i g) = powerUpTimer g
   \<and> p_speed (pacman (collisionLoop i g)) = p_speed (pacman g)"
proof (induction i g rule: collisionLoop.induct)
  case (1 i g)
  show ?case
  proof (cases "i < length (ghosts g)")
    case True
    from "1.IH"[OF True] show ?thesis
      using True by (subst (1 2 3 4) collisionLoop.simps) (simp add: collisionStep_keeps)
  next
    case False
    then show ?thesis by (subst (1 2 3 4) collisionLoop.simps) simp
  qed
qed

lemma collisionLoop_same_lives:
  assumes "lives (collisionLoop i g) = lives g"
  shows "map g_speed (ghosts (collisionLoop i g)) = map g_speed (ghosts g)
       \<and> (activePowerUp g \<noteq> 0 \<longrightarrow> ghosts (collisionLoop i g) = ghosts g)"
  using assms
proof (induction i g rule: collisionLoop.induct)
  case (1 i g)
  show ?case
  proof (cases "i < length (ghosts g)")
    case False
    then show ?thesis by (subst (1 2) collisionLoop.simps) simp
  next
    case True
    have unf: "collisionLoop i g = collisionLoop (Suc i) (collisionStep i g)"
      using True by (subst collisionLoop.simps) simp
    have "lives (collisionLoop (Suc i) (collisionStep i g)) \<le> lives (collisionStep i g)"
      by (rule collisionLoop_lives_le)
    with "1.prems" unf collisionStep_lives_le[of i g]
    have l1: "lives (collisionStep i g) = lives g"
      and l2: "lives (collisionLoop (Suc i) (collisionStep i g)) = lives (collisionStep i g)"
      by simp_all
    from "1.IH"[OF True l2] collisionStep_same_lives[OF l1] show ?thesis
      unfolding unf by simp
  qed
qed


lemma tickCounters_keeps:
  "ghosts (tickCounters g) = ghosts g" "lives (tickCounters g) = lives g"
  "activePowerUp (tickCounters g) = activePowerUp g" "powerUpTimer (tickCounters g) = powerUpTimer g"
  "pacman (tickCounters g) = pacman g" "totalPellets (tickCounters g) = totalPellets g"
  by (simp_all add: tickCounters_def Let_def)

lemma movePacman_keeps:
  assumes "movePacman g = Inr g'"
  shows "ghosts g' = ghosts g" "lives g' = lives g" "gameTime g' = gameTime g"
    "activePowerUp g' = activePowerUp g" "powerUpTimer g' = powerUpTimer g"
    "p_speed (pacman g') = p_speed (pacman g)" "totalPellets g' = totalPellets g"
  using assms by (auto simp: movePacman_def Let_def split: sum.splits if_splits)

lemma eatPellet_keeps:
  assumes "eatPellet g = Inr g'"
  shows "ghosts g' = ghosts g" "lives g' = lives g" "gameTime g' = gameTime g"
    "activePowerUp g' = activePowerUp g" "powerUpTimer g' = powerUpTimer g"
    "pacman g' = pacman g" "totalPellets g' = totalPellets g"
  using assms by (auto simp: eatPellet_def Let_def split: sum.splits if_splits)

lemma collectPowerUp_keeps:
  assumes "collectPowerUp g = Inr g'"
  shows "ghosts g' = ghosts g" "lives g' = lives g" "gameTime g' = gameTime g"
    "totalPellets g' = totalPellets g"
    "powerUpTimer g' = 5 \<or> (powerUpTimer g' = powerUpTimer g \<and> activePowerUp g' = activePowerUp g
        \<and> pacman g' = pacman g)"
  using assms
  by (auto simp: collectPowerUp_def Let_def split: sum.splits if_splits option.splits prod.splits)

lemma updatePowerUpTimer_keeps:
  "ghosts (updatePowerUpTimer g) = ghosts g" "lives (updatePowerUpTimer g) = lives g"
  "gameTime (updatePowerUpTimer g) = gameTime g" "totalPellets (updatePowerUpTimer g) = totalPellets g"
  by (simp_all add: updatePowerUpTimer_def Let_def)

lemma moveGhosts_keeps:
  assumes "moveGhosts g = Inr g'"
  shows "activePowerUp g' = activePowerUp g" "gameTime g' = gameTime g" "lives g' = lives g"
    "pacman g' = pacman g" "powerUpTimer g' = powerUpTimer g" "totalPellets g' = totalPellets g"
  using moveGhosts_frame[OF assms] by (erule_tac [!] ssubst) simp_all

lemma winCheck_keeps:
  "ghosts (winCheck g) = ghosts g" "lives (winCheck g) = lives g"
  "gameTime (winCheck g) = gameTime g" "activePowerUp (winCheck g) = activePowerUp g"
  "powerUpTimer (winCheck g) = powerUpTimer g" "pacman (winCheck g) = pacman g"
  "totalPellets (winCheck g) = totalPellets g"
  by (simp_all add: winCheck_def saveHighScore_def Let_def)

lemma caught_result:
  "updateGame caughtState = Inr (caughtState\<lparr>frameCount := 1861, lives := 2,
      pacman := \<lparr>p_x = 1, p_y = 1, dirX = 1, dirY = 0, p_speed = 0.1\<rparr>,
      ghosts := [blinky, pinky, inky, clyde],
      board := setCell (board startState) 1 2 0, score := 10, powerUpTimer := 2.984\<rparr>)"
proof -
  have "\<not> allPelletsEaten (setCell (board startState) 1 2 0)"
    by (rule not_allPelletsEaten[of 2 2])
       (simp_all add: setCell_def board_startState mazeCell_def cellInit_def)
  then show ?thesis
    by (simp add: tick_defs caughtState_def frozenState_def startState_fields board_startState
          mazeCell_def cellInit_def winCheck_def initGhosts_def)
qed

lemma timer_window:
  assumes "0 \<le> t"
  shows "c_int t smod 5 = 0 \<longleftrightarrow> (\<exists>k::nat. 5 * real k \<le> t \<and> t < 5 * real k + 1)"
proof
  assume z: "c_int t smod 5 = 0"
  from assms have c: "c_int t = \<lfloor>t\<rfloor>" and nn: "0 \<le> \<lfloor>t\<rfloor>" by (simp_all add: c_int_def)
  from z c nn have "\<lfloor>t\<rfloor> mod 5 = 0" by (simp add: smod_nonneg)
  then obtain q where q: "\<lfloor>t\<rfloor> = 5 * q" by auto
  with nn have "0 \<le> q" by simp
  then obtain k :: nat where k: "q = int k" by (metis nonneg_int_cases)
  have "real_of_int \<lfloor>t\<rfloor> \<le> t" "t < real_of_int \<lfloor>t\<rfloor> + 1" by linarith+
  with q k have "5 * real k \<le> t \<and> t < 5 * real k + 1" by simp
  then show "\<exists>k::nat. 5 * real k \<le> t \<and> t < 5 * real k + 1" ..
next
  assume "\<exists>k::nat. 5 * real k \<le> t \<and> t < 5 * real k + 1"
  then obtain k :: nat where k: "5 * real k \<le> t" "t < 5 * real k + 1" by auto
  have "\<lfloor>t\<rfloor> = 5 * int k"
    by (rule floor_unique) (use k in simp_all)
  with assms show "c_int t smod 5 = 0"
    by (simp add: c_int_def smod_nonneg)
qed

lemma allPelletsEaten_last: "allPelletsEaten (setCell lastPelletBoard 1 2 0)"
  by (auto simp: allPelletsEaten_def list_all_iff setCell_def lastPelletBoard_def)



lemma lastPellet_result:
  "updateGame lastPelletState = Inr (lastPelletState\<lparr>frameCount := 7211, lives := 0,
      pacman := \<lparr>p_x = 1, p_y = 1, dirX = 1, dirY = 0, p_speed = 0.1\<rparr>,
      ghosts := [blinky, pinky, inky, clyde],
      board := setCell lastPelletBoard 1 2 0, score := 3270, powerUpTimer := 2.984,
      gameState := WIN, highScore := 3270, hs_store := Holds 3270\<rparr>)"
proof -
  have b: "lastPelletBoard (Suc 0) 2 = 1" by (simp add: lastPelletBoard_def)
  show ?thesis
    using allPelletsEaten_last
    by (simp add: tick_defs lastPelletState_def caughtState_def frozenState_def startState_fields
        winCheck_def initGhosts_def saveHighScore_def b)
qed

lemma collisionStep_saved:
  assumes "activePowerUp g0 \<noteq> 0" "saved g0 g"
  shows "saved g0 (collisionStep i g)"
  using assms unfolding saved_def collisionStep_def initGhosts_def saveHighScore_def Let_def
  by (auto split: if_splits)

lemma collisionLoop_saved:
  assumes "activePowerUp g0 \<noteq> 0" "saved g0 g"
  shows "saved g0 (collisionLoop i g)"
  using assms(2)
proof (induction i g rule: collisionLoop.induct)
  case (1 i g)
  show ?case
  proof (cases "i < length (ghosts g)")
    case True
    from collisionStep_saved[OF assms(1) "1.prems"] "1.IH"[OF True] show ?thesis
      using True by (subst collisionLoop.simps) simp
  next
    case False
    with "1.prems" show ?thesis by (subst collisionLoop.simps) simp
  qed
qed

lemma phase_store_keeps:
  "hs_store (tickCounters g) = hs_store g" "highScore (tickCounters g) = highScore g"
  "hs_writable (tickCounters g) = hs_writable g"
  "hs_store (updatePowerUpTimer g) = hs_store g" "highScore (updatePowerUpTimer g) = highScore g"
  "hs_writable (updatePowerUpTimer g) = hs_writable g"
  "score (updatePowerUpTimer g) = score g"
  by (simp_all add: tickCounters_def updatePowerUpTimer_def Let_def)

lemma movePacman_store:
  assumes "movePacman g = Inr g'"
  shows "hs_store g' = hs_store g" "highScore g' = highScore g" "hs_writable g' = hs_writable g"
  using assms by (auto simp: movePacman_def Let_def split: sum.splits if_splits)

lemma eatPellet_store:
  assumes "eatPellet g = Inr g'"
  shows "hs_store g' = hs_store g" "highScore g' = highScore g" "hs_writable g' = hs_writable g"
  using assms by (auto simp: eatPellet_def Let_def split: sum.splits if_splits)

lemma collectPowerUp_store:
  assumes "collectPowerUp g = Inr g'"
  shows "hs_store g' = hs_store g" "highScore g' = highScore g" "hs_writable g' = hs_writable g"
  using assms
  by (auto simp: collectPowerUp_def Let_def split: sum.splits if_splits option.splits prod.splits)

lemma moveGhosts_store:
  assumes "moveGhosts g = Inr g'"
  shows "hs_store g' = hs_store g" "highScore g' = highScore g" "hs_writable g' = hs_writable g"
    "score g' = score g"
  using moveGhosts_frame[OF assms] by (erule_tac [!] ssubst) simp_all

lemma collision_then_win_store:
  assumes "gameState g = PLAYING"
  shows "hs_store (winCheck (collisionLoop 0 g))
       = (if (gameState (winCheck (collisionLoop 0 g)) = GAMEOVER
              \<or> gameState (winCheck (collisionLoop 0 g)) = WIN)
             \<and> highScore g < score (winCheck (collisionLoop 0 g)) \<and> hs_writable g
          then Holds (score (winCheck (collisionLoop 0 g))) else hs_store g)"
proof (cases "activePowerUp g = 0")
  case True
  have "collisionLoop 0 g = g\<lparr>ghosts := take 0 (ghosts g) @ map (relocate (pacman g)) (drop 0 (ghosts g)),
             score := score g + 100 * int (length (filter (near (pacman g)) (drop 0 (ghosts g))))\<rparr>"
    by (rule collisionLoop_invincible[OF True]) simp
  then show ?thesis using assms
    by (simp add: winCheck_def saveHighScore_def Let_def)
next
  case False
  have "saved g g" using assms by (simp add: saved_def)
  from collisionLoop_saved[OF False this, of 0] show ?thesis
    unfolding saved_def winCheck_def saveHighScore_def Let_def
    by (auto split: if_splits)
qed

lemma unwritable_result:
  "updateGame unwritableState = Inr (unwritableState\<lparr>frameCount := 7211, lives := 0,
      pacman := \<lparr>p_x = 1, p_y = 1, dirX = 1, dirY = 0, p_speed = 0.1\<rparr>,
      ghosts := [blinky, pinky, inky, clyde],
      board := setCell lastPelletBoard 1 2 0, score := 3270, powerUpTimer := 2.984,
      gameState := WIN, highScore := 3270\<rparr>)"
proof -
  have b: "lastPelletBoard (Suc 0) 2 = 1" by (simp add: lastPelletBoard_def)
  show ?thesis
    using allPelletsEaten_last
    by (simp add: tick_defs unwritableState_def lastPelletState_def caughtState_def frozenState_def
        startState_fields winCheck_def initGhosts_def saveHighScore_def b)
qed

lemma updateGhost_eval:
  assumes "activePowerUp g \<noteq> 1"
    and "gh = (ghosts g ! i)\<lparr>specialTimer := specialTimer (ghosts g ! i) + 0.016,
                               g_speed := g_speed (ghosts g ! i) + speedUp g\<rparr>"
    and "ghostTarget (g\<lparr>ghosts := (ghosts g)[i := gh]\<rparr>) gh = (tx, ty, rp)"
    and "sqrt ((tx - g_x gh) * (tx - g_x gh) + (ty - g_y gh) * (ty - g_y gh)) = d"
    and "0 < d"
    and "nx = g_x gh + (tx - g_x gh) / d * g_speed gh"
    and "ny = g_y gh + (ty - g_y gh) / d * g_speed gh"
    and "readBoard (board g) (c_int ny) (c_int nx) = Inr v"
  shows "updateGhost g i =
           Inr (g\<lparr>ghosts := (ghosts g)[i := (if v \<noteq> 2 then gh\<lparr>g_x := nx, g_y := ny\<rparr> else gh)],
                  rand_pos := rp\<rparr>)"
proof -
  have gh2: "(if gameTime g smod 30 = 0 \<and> gameTime g > 0
              then ((ghosts g ! i)\<lparr>specialTimer := specialTimer (ghosts g ! i) + 0.016\<rparr>)
                     \<lparr>g_speed := g_speed ((ghosts g ! i)\<lparr>specialTimer := specialTimer (ghosts g ! i) + 0.016\<rparr>) + 0.001\<rparr>
              else (ghosts g ! i)\<lparr>specialTimer := specialTimer (ghosts g ! i) + 0.016\<rparr>) = gh"
    using assms(1) by (simp add: assms(2) speedUp_def)
  show ?thesis
    unfolding updateGhost_def Let_def gh2
    apply (simp only: assms(3) prod.case assms(4) assms(6)[symmetric] assms(7)[symmetric])
    using assms(1,5,8) apply simp
    done
qed

lemma sqrt_sq: "0 \<le> a \<Longrightarrow> sqrt (a * a) = a"
  by simp

lemma expiry_pre:
  "movePacman (tickCounters expiryState) = Inr (expiryState\<lparr>frameCount := 1201,
      pacman := \<lparr>p_x = 2, p_y = 1, dirX = 1, dirY = 0, p_speed = 0.1\<rparr>\<rparr>)"
  "eatPellet (expiryState\<lparr>frameCount := 1201,
      pacman := \<lparr>p_x = 2, p_y = 1, dirX = 1, dirY = 0, p_speed = 0.1\<rparr>\<rparr>)
    = Inr (expiryState\<lparr>frameCount := 1201,
      pacman := \<lparr>p_x = 2, p_y = 1, dirX = 1, dirY = 0, p_speed = 0.1\<rparr>,
      board := setCell (board startState) 1 2 0, score := 10\<rparr>)"
  "collectPowerUp (expiryState\<lparr>frameCount := 1201,
      pacman := \<lparr>p_x = 2, p_y = 1, dirX = 1, dirY = 0, p_speed = 0.1\<rparr>,
      board := setCell (board startState) 1 2 0, score := 10\<rparr>)
    = Inr (expiryState\<lparr>frameCount := 1201,
      pacman := \<lparr>p_x = 2, p_y = 1, dirX = 1, dirY = 0, p_speed = 0.1\<rparr>,
      board := setCell (board startState) 1 2 0, score := 10\<rparr>)"
  "updatePowerUpTimer (expiryState\<lparr>frameCount := 1201,
      pacman := \<lparr>p_x = 2, p_y = 1, dirX = 1, dirY = 0, p_speed = 0.1\<rparr>,
      board := setCell (board startState) 1 2 0, score := 10\<rparr>) = expiryMid"
  by (simp_all add: tickCounters_def movePacman_def eatPellet_def collectPowerUp_def
        updatePowerUpTimer_def Let_def readBoard_def expiryState_def expiryMid_def startState_fields
        board_startState mazeCell_def cellInit_def smod_nonneg setCell_apply)

lemma expiry_blinky:
  "updateGhost expiryMid 0 = Inr (expiryMid\<lparr>ghosts :=
      [blinky\<lparr>g_x := 4.96, g_y := 1, specialTimer := 0.016\<rparr>, pinky\<lparr>g_x := 6, g_y := 5\<rparr>,
       inky\<lparr>g_x := 12, g_y := 1\<rparr>, clyde\<lparr>g_x := 2, g_y := 7, specialTimer := 2\<rparr>]\<rparr>)"
  using updateGhost_eval[of expiryMid "blinky\<lparr>g_x := 5, g_y := 1, specialTimer := 0.016\<rparr>" 0 2 1 0 3 "4.96" 1 1]
    sqrt_sq[of 3]
  apply (simp add: expiryMid_def expiryState_def startState_fields speedUp_def ghostTarget_def
     blinky_def smod_nonneg readBoard_def c_int_def setCell_apply board_startState mazeCell_def cellInit_def)
  done


lemmas ghost_eval_simps = speedUp_def ghostTarget_def blinky_def pinky_def inky_def clyde_def
  smod_nonneg readBoard_def c_int_def setCell_apply board_startState mazeCell_def cellInit_def

lemma expiry_pinky:
  "updateGhost (expiryMid\<lparr>ghosts :=
      [blinky\<lparr>g_x := 4.96, g_y := 1, specialTimer := 0.016\<rparr>, pinky\<lparr>g_x := 6, g_y := 5\<rparr>,
       inky\<lparr>g_x := 12, g_y := 1\<rparr>, clyde\<lparr>g_x := 2, g_y := 7, specialTimer := 2\<rparr>]\<rparr>) 1
   = Inr (expiryMid\<lparr>ghosts :=
      [blinky\<lparr>g_x := 4.96, g_y := 1, specialTimer := 0.016\<rparr>,
       pinky\<lparr>g_x := 6, g_y := 4.965, specialTimer := 0.016\<rparr>,
       inky\<lparr>g_x := 12, g_y := 1\<rparr>, clyde\<lparr>g_x := 2, g_y := 7, specialTimer := 2\<rparr>]\<rparr>)"
  using updateGhost_eval[of "expiryMid\<lparr>ghosts :=
      [blinky\<lparr>g_x := 4.96, g_y := 1, specialTimer := 0.016\<rparr>, pinky\<lparr>g_x := 6, g_y := 5\<rparr>,
       inky\<lparr>g_x := 12, g_y := 1\<rparr>, clyde\<lparr>g_x := 2, g_y := 7, specialTimer := 2\<rparr>]\<rparr>"
      "pinky\<lparr>g_x := 6, g_y := 5, specialTimer := 0.016\<rparr>" 1 6 1 0 4 6 "4.965" 1]
    sqrt_sq[of 4]
  by (simp add: expiryMid_def expiryState_def startState_fields ghost_eval_simps)

lemma expiry_inky:
  "updateGhost (expiryMid\<lparr>ghosts :=
      [blinky\<lparr>g_x := 4.96, g_y := 1, specialTimer := 0.016\<rparr>,
       pinky\<lparr>g_x := 6, g_y := 4.965, specialTimer := 0.016\<rparr>,
       inky\<lparr>g_x := 12, g_y := 1\<rparr>, clyde\<lparr>g_x := 2, g_y := 7, specialTimer := 2\<rparr>]\<rparr>) 2
   = Inr (expiryMid\<lparr>ghosts :=
      [blinky\<lparr>g_x := 4.96, g_y := 1, specialTimer := 0.016\<rparr>,
       pinky\<lparr>g_x := 6, g_y := 4.965, specialTimer := 0.016\<rparr>,
       inky\<lparr>g_x := 11.962, g_y := 1, specialTimer := 0.016\<rparr>,
       clyde\<lparr>g_x := 2, g_y := 7, specialTimer := 2\<rparr>]\<rparr>)"
  using updateGhost_eval[of "expiryMid\<lparr>ghosts :=
      [blinky\<lparr>g_x := 4.96, g_y := 1, specialTimer := 0.016\<rparr>,
       pinky\<lparr>g_x := 6, g_y := 4.965, specialTimer := 0.016\<rparr>,
       inky\<lparr>g_x := 12, g_y := 1\<rparr>, clyde\<lparr>g_x := 2, g_y := 7, specialTimer := 2\<rparr>]\<rparr>"
      "inky\<lparr>g_x := 12, g_y := 1, specialTimer := 0.016\<rparr>" 2 "- 0.96" 1 0 "12.96" "11.962" 1 1]
    sqrt_sq[of "12.96"]
  by (simp add: expiryMid_def expiryState_def startState_fields ghost_eval_simps)

lemma expiry_clyde:
  "updateGhost (expiryMid\<lparr>ghosts :=
      [blinky\<lparr>g_x := 4.96, g_y := 1, specialTimer := 0.016\<rparr>,
       pinky\<lparr>g_x := 6, g_y := 4.965, specialTimer := 0.016\<rparr>,
       inky\<lparr>g_x := 11.962, g_y := 1, specialTimer := 0.016\<rparr>,
       clyde\<lparr>g_x := 2, g_y := 7, specialTimer := 2\<rparr>]\<rparr>) 3
   = Inr (expiryMid\<lparr>ghosts :=
      [blinky\<lparr>g_x := 4.96, g_y := 1, specialTimer := 0.016\<rparr>,
       pinky\<lparr>g_x := 6, g_y := 4.965, specialTimer := 0.016\<rparr>,
       inky\<lparr>g_x := 11.962, g_y := 1, specialTimer := 0.016\<rparr>,
       clyde\<lparr>g_x := 2, g_y := 6.97, specialTimer := 2.016\<rparr>]\<rparr>)"
  using updateGhost_eval[of "expiryMid\<lparr>ghosts :=
      [blinky\<lparr>g_x := 4.96, g_y := 1, specialTimer := 0.016\<rparr>,
       pinky\<lparr>g_x := 6, g_y := 4.965, specialTimer := 0.016\<rparr>,
       inky\<lparr>g_x := 11.962, g_y := 1, specialTimer := 0.016\<rparr>,
       clyde\<lparr>g_x := 2, g_y := 7, specialTimer := 2\<rparr>]\<rparr>"
      "clyde\<lparr>g_x := 2, g_y := 7, specialTimer := 2.016\<rparr>" 3 2 1 0 6 2 "6.97" 1]
    sqrt_sq[of 6]
  by (simp add: expiryMid_def expiryState_def startState_fields ghost_eval_simps)

lemma expiry_ghosts: "moveGhosts expiryMid = Inr expiryEnd"
proof -
  have "[0..<length (ghosts expiryMid)] = [0, 1, 2, 3]"
    by (simp add: expiryMid_def expiryState_def upt_rec)
  then show ?thesis
    by (simp only: moveGhosts_def updateGhosts.simps expiry_blinky expiry_pinky expiry_inky
          expiry_clyde expiryEnd_def sum.case)
qed

lemma expiry_result: "updateGame expiryState = Inr expiryEnd"
proof -
  have w: "\<not> allPelletsEaten (board expiryEnd)"
    by (rule not_allPelletsEaten[of 2 2])
       (simp_all add: expiryEnd_def expiryMid_def setCell_apply board_startState mazeCell_def cellInit_def)
  have c: "collisionLoop 0 expiryEnd = expiryEnd"
    by (simp add: collisionLoop.simps collisionStep_def near_def expiryEnd_def expiryMid_def
          expiryState_def blinky_def pinky_def inky_def clyde_def)
  have p: "gameState expiryState = PLAYING"
    by (simp add: expiryState_def startState_fields)
  show ?thesis
    by (simp only: updateGame_def p expiry_pre expiry_ghosts c winCheck_def w sum.case
          simp_thms if_False)
qed










section \<open>Board bounds\<close>

subsection \<open>Indices and cells\<close>

lemma c_int_range:
  assumes "0 < x" "x < 20"
  shows "0 \<le> c_int x" "c_int x < 20"
  using assms by (simp_all add: c_int_def floor_less_iff)

lemma c_int_range0:
  assumes "0 \<le> x" "x < 20"
  shows "0 \<le> c_int x" "c_int x < 20"
  using assms by (simp_all add: c_int_def floor_less_iff)

lemma c_int_inside:
  assumes "1 \<le> c_int x" "c_int x \<le> 18"
  shows "1 \<le> x" "x < 19"
proof -
  from assms(1) have p: "0 \<le> x"
    by (cases "0 \<le> x") (auto simp: c_int_def ceiling_le_iff intro: order_trans)
  with assms show "1 \<le> x" "x < 19"
    by (simp_all add: c_int_def le_floor_iff floor_le_iff)
qed

lemma readBoard_ok: "0 \<le> r \<Longrightarrow> r < 20 \<Longrightarrow> 0 \<le> c \<Longrightarrow> c < 20 \<Longrightarrow> readBoard b r c = Inr (b (nat r) (nat c))"
  by (simp add: readBoard_def)

lemma readBoard_free:
  assumes "readBoard b r c = Inr v" "v \<noteq> 2" "borderWalls b"
  shows "1 \<le> r \<and> r \<le> 18 \<and> 1 \<le> c \<and> c \<le> 18"
proof -
  from assms(1) have rg: "0 \<le> r" "r < 20" "0 \<le> c" "c < 20" and v: "v = b (nat r) (nat c)"
    by (auto simp: readBoard_def split: if_splits)
  have "\<not> (nat r = 0 \<or> nat c = 0 \<or> nat r = 19 \<or> nat c = 19)"
  proof
    assume "nat r = 0 \<or> nat c = 0 \<or> nat r = 19 \<or> nat c = 19"
    moreover have "nat r < 20" "nat c < 20" using rg by simp_all
    ultimately have "b (nat r) (nat c) = 2" using assms(3) unfolding borderWalls_def by blast
    with v assms(2) show False by simp
  qed
  with rg show ?thesis by auto
qed

subsection \<open>Counting the speed increments\<close>



lemma ups_mono: "m \<le> n \<Longrightarrow> ups m \<le> ups n"
  by (induction n) (auto simp: le_Suc_eq)


subsection \<open>One pursuer's move\<close>

lemma updateGhost_alt:
  assumes "activePowerUp g \<noteq> 1"
  shows "updateGhost g i =
     (case ghostTarget (g\<lparr>ghosts := (ghosts g)[i := aged g (ghosts g ! i)]\<rparr>) (aged g (ghosts g ! i)) of
        (tx, ty, rp) \<Rightarrow>
          (case ghostMove (board g) (aged g (ghosts g ! i)) tx ty of
             Inl e \<Rightarrow> Inl e
           | Inr gh' \<Rightarrow> Inr (g\<lparr>ghosts := (ghosts g)[i := gh'], rand_pos := rp\<rparr>)))"
proof -
  have gh2: "(if gameTime g smod 30 = 0 \<and> gameTime g > 0
              then ((ghosts g ! i)\<lparr>specialTimer := specialTimer (ghosts g ! i) + 0.016\<rparr>)
                     \<lparr>g_speed := g_speed ((ghosts g ! i)\<lparr>specialTimer := specialTimer (ghosts g ! i) + 0.016\<rparr>) + 0.001\<rparr>
              else (ghosts g ! i)\<lparr>specialTimer := specialTimer (ghosts g ! i) + 0.016\<rparr>) = aged g (ghosts g ! i)"
    using assms by (simp add: aged_def speedUp_def)
  show ?thesis
    unfolding updateGhost_def Let_def gh2 ghostMove_def
    using assms by (auto split: prod.splits sum.splits)
qed

lemma err_is: "(e::err) = BoardIndex"
  by (cases e) simp







subsection \<open>Pursuers of at most one cell per tick\<close>

lemma unit_le: "\<bar>dx / sqrt (dx * dx + dy * dy)\<bar> \<le> 1"
proof -
  have "sqrt (dx * dx) \<le> sqrt (dx * dx + dy * dy)"
    by (rule real_sqrt_le_mono) simp
  then have a: "\<bar>dx\<bar> \<le> sqrt (dx * dx + dy * dy)" by simp
  show ?thesis
  proof (cases "sqrt (dx * dx + dy * dy) = 0")
    case True
    then show ?thesis by simp
  next
    case False
    with a have "0 < sqrt (dx * dx + dy * dy)" by linarith
    with a show ?thesis by (simp only: abs_divide abs_of_pos divide_le_eq_1_pos)
  qed
qed

lemma unit_le': "\<bar>dy / sqrt (dx * dx + dy * dy)\<bar> \<le> 1"
  using unit_le[of dy dx] by (simp add: add.commute)

lemma step_range:
  assumes "1 \<le> x" "x < 19" "\<bar>u\<bar> \<le> 1" "0 \<le> s" "s \<le> 1"
  shows "0 \<le> c_int (x + u * s)" "c_int (x + u * s) < 20"
proof -
  have "\<bar>u * s\<bar> \<le> 1 * 1"
    unfolding abs_mult using assms(3,4,5) by (intro mult_mono) simp_all
  then have "0 \<le> x + u * s" "x + u * s < 20" using assms(1,2) by linarith+
  then show "0 \<le> c_int (x + u * s)" "c_int (x + u * s) < 20"
    by (rule c_int_range0)+
qed

lemma ghostMove_inside:
  assumes "ghostMove b a tx ty = Inr a'" "borderWalls b" "inside (g_x a) (g_y a)"
  shows "inside (g_x a') (g_y a') \<and> g_speed a' = g_speed a"
proof (cases "a' = a")
  case True
  with assms(3) show ?thesis by simp
next
  case False
  with assms(1) obtain nx ny v where m: "a' = a\<lparr>g_x := nx, g_y := ny\<rparr>"
      "readBoard b (c_int ny) (c_int nx) = Inr v" "v \<noteq> 2"
    unfolding ghostMove_def Let_def by (auto split: if_splits sum.splits)
  from readBoard_free[OF m(2,3) assms(2)] c_int_inside[of nx] c_int_inside[of ny]
  show ?thesis by (simp add: m(1) inside_def)
qed

lemma ghostMove_safe:
  assumes "borderWalls b" "inside (g_x a) (g_y a)" "0 \<le> g_speed a" "g_speed a \<le> 1"
  shows "\<exists>a'. ghostMove b a tx ty = Inr a'"
proof -
  let ?d = "sqrt ((tx - g_x a) * (tx - g_x a) + (ty - g_y a) * (ty - g_y a))"
  have x: "0 \<le> c_int (g_x a + (tx - g_x a) / ?d * g_speed a)"
          "c_int (g_x a + (tx - g_x a) / ?d * g_speed a) < 20"
    using assms(2) step_range[OF _ _ unit_le[of "tx - g_x a" "ty - g_y a"] assms(3,4), of "g_x a"]
    by (simp_all only: inside_def)
  have y: "0 \<le> c_int (g_y a + (ty - g_y a) / ?d * g_speed a)"
          "c_int (g_y a + (ty - g_y a) / ?d * g_speed a) < 20"
    using assms(2) step_range[OF _ _ unit_le'[where dx = "tx - g_x a" and dy = "ty - g_y a"] assms(3,4), of "g_y a"]
    by (simp_all only: inside_def)
  show ?thesis
    unfolding ghostMove_def Let_def using x y by (simp add: readBoard_def)
qed

lemma speedUp_range: "0 \<le> speedUp g" "speedUp g \<le> 0.001"
  by (simp_all add: speedUp_def)

lemma inMaze_ghosts_update [simp]:
  "inMaze (g\<lparr>rand_pos := rp\<rparr>) = inMaze g"
  by (simp add: inMaze_def)

lemma updateGhost_inMaze:
  assumes "updateGhost g i = Inr g'" "inMaze g" "i < length (ghosts g)"
  shows "inMaze g'"
proof (cases "activePowerUp g = 1")
  case True
  with assms show ?thesis by (simp add: updateGhost_def)
next
  case False
  let ?a = "aged g (ghosts g ! i)"
  from assms(2,3) have gi: "inside (g_x (ghosts g ! i)) (g_y (ghosts g ! i))" "0 \<le> g_speed (ghosts g ! i)"
    by (simp_all add: inMaze_def)
  from assms(1) obtain tx ty rp a' where
    m: "ghostMove (board g) ?a tx ty = Inr a'" and g': "g' = g\<lparr>ghosts := (ghosts g)[i := a'], rand_pos := rp\<rparr>"
    unfolding updateGhost_alt[OF False] by (auto split: prod.splits sum.splits)
  have "inside (g_x a') (g_y a') \<and> g_speed a' = g_speed ?a"
    using m assms(2) gi by (intro ghostMove_inside[OF m]) (simp_all add: inMaze_def aged_def)
  moreover have "0 \<le> g_speed ?a" using gi(2) speedUp_range(1)[of g] by (simp add: aged_def)
  ultimately have a': "inside (g_x a') (g_y a') \<and> 0 \<le> g_speed a'" by simp
  have "set ((ghosts g)[i := a']) \<subseteq> insert a' (set (ghosts g))"
    by (rule set_update_subset_insert)
  with a' assms(2) show ?thesis
    unfolding g' inMaze_def by auto
qed

lemma updateGhost_safe:
  assumes "inMaze g" "i < length (ghosts g)" "g_speed (ghosts g ! i) \<le> 0.999"
  shows "\<exists>g'. updateGhost g i = Inr g'"
proof (cases "activePowerUp g = 1")
  case True
  then show ?thesis by (simp add: updateGhost_def)
next
  case False
  let ?a = "aged g (ghosts g ! i)"
  from assms(1,2) have gi: "inside (g_x (ghosts g ! i)) (g_y (ghosts g ! i))" "0 \<le> g_speed (ghosts g ! i)"
    by (simp_all add: inMaze_def)
  have s: "0 \<le> g_speed ?a" "g_speed ?a \<le> 1"
    using gi(2) assms(3) speedUp_range[of g] by (simp_all add: aged_def)
  have "\<exists>a'. ghostMove (board g) ?a tx ty = Inr a'" for tx ty
    using assms(1) gi(1) s by (intro ghostMove_safe) (simp_all add: inMaze_def aged_def)
  then show ?thesis
    unfolding updateGhost_alt[OF False] by (auto split: prod.splits sum.splits) (metis sum.simps(4) err_is)
qed

lemma updateGhosts_inMaze:
  assumes "updateGhosts is g = Inr g'" "inMaze g" "\<forall>i\<in>set is. i < length (ghosts g)"
  shows "inMaze g'"
  using assms
proof (induction "is" arbitrary: g)
  case Nil
  then show ?case by simp
next
  case (Cons i "is")
  from Cons.prems(1) obtain g1 where u: "updateGhost g i = Inr g1" and r: "updateGhosts is g1 = Inr g'"
    by (auto split: sum.splits)
  from Cons.prems(3) have i: "i < length (ghosts g)" by simp
  have "inMaze g1" by (rule updateGhost_inMaze[OF u Cons.prems(2) i])
  moreover have "\<forall>k\<in>set is. k < length (ghosts g1)"
    using Cons.prems(3) updateGhost_ghosts(1)[OF u i] by simp
  ultimately show ?case using Cons.IH[OF r] by simp
qed

lemma updateGhosts_safe:
  assumes "inMaze g" "\<forall>i\<in>set is. i < length (ghosts g) \<and> g_speed (ghosts g ! i) \<le> 0.999" "distinct is"
  shows "\<exists>g'. updateGhosts is g = Inr g'"
  using assms
proof (induction "is" arbitrary: g)
  case Nil
  then show ?case by simp
next
  case (Cons i "is")
  from Cons.prems(2) have i: "i < length (ghosts g)" "g_speed (ghosts g ! i) \<le> 0.999" by simp_all
  from updateGhost_safe[OF Cons.prems(1) i] obtain g1 where u: "updateGhost g i = Inr g1" ..
  have m: "inMaze g1" by (rule updateGhost_inMaze[OF u Cons.prems(1) i(1)])
  have "\<forall>k\<in>set is. k < length (ghosts g1) \<and> g_speed (ghosts g1 ! k) \<le> 0.999"
  proof
    fix k assume k: "k \<in> set is"
    with Cons.prems(3) have "k \<noteq> i" by auto
    with updateGhost_ghosts(1,2)[OF u i(1)] Cons.prems(2) k
    show "k < length (ghosts g1) \<and> g_speed (ghosts g1 ! k) \<le> 0.999" by simp
  qed
  with Cons.IH[OF m] Cons.prems(3) obtain g' where "updateGhosts is g1 = Inr g'" by auto
  with u show ?case by simp
qed

lemma moveGhosts_inMaze: "moveGhosts g = Inr g' \<Longrightarrow> inMaze g \<Longrightarrow> inMaze g'"
  unfolding moveGhosts_def by (erule updateGhosts_inMaze) simp_all

lemma moveGhosts_safe:
  assumes "inMaze g" "\<forall>gh\<in>set (ghosts g). g_speed gh \<le> 0.999"
  shows "\<exists>g'. moveGhosts g = Inr g'"
  unfolding moveGhosts_def using assms by (intro updateGhosts_safe) simp_all

lemma tickCounters_inMaze: "inMaze (tickCounters g) = inMaze g"
  by (simp add: tickCounters_def Let_def inMaze_def)

lemma movePacman_safe:
  assumes "inMaze g"
  shows "\<exists>g'. movePacman g = Inr g' \<and> inMaze g' \<and> ghosts g' = ghosts g"
proof -
  let ?p = "pacman g"
  let ?nx = "p_x ?p + real_of_int (dirX ?p) * p_speed ?p"
  let ?ny = "p_y ?p + real_of_int (dirY ?p) * p_speed ?p"
  from assms have i: "1 \<le> p_x ?p" "p_x ?p < 19" "1 \<le> p_y ?p" "p_y ?p < 19"
    and d0: "\<bar>dirX ?p\<bar> \<le> 1" "\<bar>dirY ?p\<bar> \<le> 1"
    and s: "0 \<le> p_speed ?p" "p_speed ?p \<le> 1"
    by (simp_all add: inMaze_def inside_def)
  from d0 have "real_of_int \<bar>dirX ?p\<bar> \<le> real_of_int 1" "real_of_int \<bar>dirY ?p\<bar> \<le> real_of_int 1"
    by (simp_all only: of_int_le_iff)
  then have d: "\<bar>real_of_int (dirX ?p)\<bar> \<le> 1" "\<bar>real_of_int (dirY ?p)\<bar> \<le> 1"
    by simp_all
  note x = step_range[OF i(1,2) d(1) s]
  note y = step_range[OF i(3,4) d(2) s]
  obtain v where r: "readBoard (board g) (c_int ?ny) (c_int ?nx) = Inr v"
    using x y by (simp add: readBoard_def)
  show ?thesis
  proof (cases "v = 2")
    case True
    with r assms show ?thesis by (simp add: movePacman_def Let_def)
  next
    case False
    from assms have "borderWalls (board g)" by (simp add: inMaze_def)
    from readBoard_free[OF r False this] c_int_inside[of ?nx] c_int_inside[of ?ny]
    have "inside ?nx ?ny" by (simp add: inside_def)
    with r False assms show ?thesis by (simp add: movePacman_def Let_def inMaze_def)
  qed
qed

lemma pacman_cell:
  assumes "inMaze g"
  shows "readBoard (board g) (c_int (p_y (pacman g))) (c_int (p_x (pacman g)))
           = Inr (board g (nat (c_int (p_y (pacman g)))) (nat (c_int (p_x (pacman g)))))"
proof -
  from assms have "0 \<le> p_x (pacman g)" "p_x (pacman g) < 20" "0 \<le> p_y (pacman g)" "p_y (pacman g) < 20"
    by (simp_all add: inMaze_def inside_def)
  then show ?thesis
    using c_int_range0[of "p_x (pacman g)"] c_int_range0[of "p_y (pacman g)"]
    by (simp add: readBoard_def)
qed

lemma borderWalls_setCell:
  assumes "borderWalls b" "b r c \<noteq> 2"
  shows "borderWalls (setCell b r c v)"
  unfolding borderWalls_def
proof (intro allI impI)
  fix i j :: nat
  assume ij: "i < ROWS" "j < COLS" "i = 0 \<or> j = 0 \<or> i = 19 \<or> j = 19"
  with assms(1) have "b i j = 2" unfolding borderWalls_def by blast
  with assms(2) have "\<not> (i = r \<and> j = c)" by auto
  with \<open>b i j = 2\<close> show "setCell b r c v i j = 2" by (auto simp: setCell_apply)
qed

lemma all_set_update: "\<forall>x\<in>set xs. P x \<Longrightarrow> P v \<Longrightarrow> \<forall>x\<in>set (xs[i := v]). P x"
  using set_update_subset_insert[of xs i v] by blast

lemma eatPellet_safe:
  assumes "inMaze g"
  shows "\<exists>g'. eatPellet g = Inr g' \<and> inMaze g' \<and> ghosts g' = ghosts g"
proof -
  let ?r = "nat (c_int (p_y (pacman g)))" and ?c = "nat (c_int (p_x (pacman g)))"
  have "board g ?r ?c = 1 \<Longrightarrow> borderWalls (setCell (board g) ?r ?c 0)"
    using assms by (intro borderWalls_setCell) (simp_all add: inMaze_def)
  with assms show ?thesis
    unfolding eatPellet_def Let_def pacman_cell[OF assms] by (simp add: inMaze_def)
qed

lemma collectPowerUp_safe:
  assumes "inMaze g"
  shows "\<exists>g'. collectPowerUp g = Inr g' \<and> inMaze g' \<and> ghosts g' = ghosts g"
proof -
  let ?r = "nat (c_int (p_y (pacman g)))" and ?c = "nat (c_int (p_x (pacman g)))"
  have "board g ?r ?c = 3 \<Longrightarrow> borderWalls (setCell (board g) ?r ?c 0)"
    using assms by (intro borderWalls_setCell) (simp_all add: inMaze_def)
  with assms show ?thesis
    unfolding collectPowerUp_def Let_def pacman_cell[OF assms]
    by (auto simp: inMaze_def split: option.splits prod.splits)
qed

lemma updatePowerUpTimer_inMaze:
  "inMaze g \<Longrightarrow> inMaze (updatePowerUpTimer g) \<and> ghosts (updatePowerUpTimer g) = ghosts g"
  by (simp add: updatePowerUpTimer_def Let_def inMaze_def)

lemma collisionStep_inMaze:
  assumes "inMaze g" "i < length (ghosts g)"
  shows "inMaze (collisionStep i g)"
proof -
  let ?P = "\<lambda>gh. inside (g_x gh) (g_y gh) \<and> 0 \<le> g_speed gh"
  have a: "\<forall>gh\<in>set (ghosts g). ?P gh" using assms(1) by (simp add: inMaze_def)
  with assms(2) have "?P ((ghosts g ! i)\<lparr>g_x := 10, g_y := 10\<rparr>)"
    by (simp add: inside_def)
  from all_set_update[of "ghosts g" ?P, OF a this]
  have "inMaze (g\<lparr>ghosts := (ghosts g)[i := (ghosts g ! i)\<lparr>g_x := 10, g_y := 10\<rparr>],
                score := score g + 100\<rparr>)"
    using assms(1) by (simp add: inMaze_def)
  moreover have "inMaze (initGhosts (g\<lparr>lives := lives g - 1,
                                    pacman := (pacman g)\<lparr>p_x := 1, p_y := 1\<rparr>\<rparr>))"
    using assms(1) by (simp add: inMaze_def initGhosts_def inside_def blinky_def pinky_def inky_def clyde_def)
  moreover have "inMaze (saveHighScore (h\<lparr>gameState := GAMEOVER\<rparr>)) = inMaze h" for h
    by (simp add: saveHighScore_def Let_def inMaze_def)
  ultimately show ?thesis
    using assms(1) unfolding collisionStep_def Let_def by simp
qed

lemma collisionLoop_inMaze: "inMaze g \<Longrightarrow> inMaze (collisionLoop i g)"
proof (induction i g rule: collisionLoop.induct)
  case (1 i g)
  show ?case
  proof (cases "i < length (ghosts g)")
    case True
    with 1 collisionStep_inMaze[of g i] show ?thesis
      by (subst collisionLoop.simps) simp
  next
    case False
    with 1(2) show ?thesis by (subst collisionLoop.simps) simp
  qed
qed

lemma winCheck_inMaze: "inMaze (winCheck g) = inMaze g"
  by (simp add: winCheck_def saveHighScore_def Let_def inMaze_def)

lemma updateGame_inMaze:
  assumes "updateGame g = Inr g'" "inMaze g"
  shows "inMaze g'"
proof (cases "gameState g = PLAYING")
  case False
  with assms show ?thesis by (simp add: updateGame_def)
next
  case True
  from updateGame_phases[OF True assms(1)] obtain g1 g2 g3 g4 where
    p: "movePacman (tickCounters g) = Inr g1" "eatPellet g1 = Inr g2" "collectPowerUp g2 = Inr g3"
    "moveGhosts (updatePowerUpTimer g3) = Inr g4" "g' = winCheck (collisionLoop 0 g4)"
    by blast
  have "inMaze g1" using movePacman_safe[of "tickCounters g"] p(1) assms(2)
    by (auto simp: tickCounters_inMaze)
  then have "inMaze g2" using eatPellet_safe[of g1] p(2) by auto
  then have "inMaze g3" using collectPowerUp_safe[of g2] p(3) by auto
  then have "inMaze (updatePowerUpTimer g3)" by (simp add: updatePowerUpTimer_inMaze)
  then have "inMaze g4" using p(4) by (rule moveGhosts_inMaze[rotated])
  then show ?thesis unfolding p(5) winCheck_inMaze by (rule collisionLoop_inMaze)
qed

lemma updateGame_safe:
  assumes "inMaze g" "\<forall>gh\<in>set (ghosts g). g_speed gh \<le> 0.999"
  shows "\<exists>g'. updateGame g = Inr g'"
proof (cases "gameState g = PLAYING")
  case False
  then show ?thesis by (simp add: updateGame_def)
next
  case True
  from movePacman_safe[of "tickCounters g"] assms(1) obtain g1 where
    1: "movePacman (tickCounters g) = Inr g1" "inMaze g1" "ghosts g1 = ghosts (tickCounters g)"
    by (auto simp: tickCounters_inMaze)
  from eatPellet_safe[OF 1(2)] obtain g2 where
    2: "eatPellet g1 = Inr g2" "inMaze g2" "ghosts g2 = ghosts g1" by auto
  from collectPowerUp_safe[OF 2(2)] obtain g3 where
    3: "collectPowerUp g2 = Inr g3" "inMaze g3" "ghosts g3 = ghosts g2" by auto
  have gs: "ghosts (updatePowerUpTimer g3) = ghosts g"
    using 1(3) 2(3) 3(3) updatePowerUpTimer_inMaze[OF 3(2)]
    by (simp add: tickCounters_def Let_def)
  from moveGhosts_safe[of "updatePowerUpTimer g3"] updatePowerUpTimer_inMaze[OF 3(2)] assms(2) gs
  obtain g4 where 4: "moveGhosts (updatePowerUpTimer g3) = Inr g4" by auto
  show ?thesis
    unfolding updateGame_def using True 1(1) 2(1) 3(1) 4 by simp
qed

lemma mazeCell_border:
  "i = 0 \<or> j = 0 \<or> i = 19 \<or> j = 19 \<Longrightarrow> mazeCell i j = 2"
  by (elim disjE) (simp_all add: mazeCell_def cellInit_def)

lemma borderWalls_maze:
  assumes "\<And>i j. i < ROWS \<Longrightarrow> j < COLS \<Longrightarrow> b i j = mazeCell i j"
  shows "borderWalls b"
  unfolding borderWalls_def
proof (intro allI impI)
  fix i j :: nat
  assume "i < ROWS" "j < COLS" "i = 0 \<or> j = 0 \<or> i = 19 \<or> j = 19"
  then show "b i j = 2" using assms[of i j] mazeCell_border[of i j] by simp
qed

lemma resetGame_inMaze: "inMaze (resetGame g)"
proof -
  have "borderWalls (board (resetGame g))"
    by (rule borderWalls_maze) (rule board_resetGame)
  then show ?thesis
    unfolding inMaze_def
    by (simp add: resetGame_def Let_def initPowerUps_def initGhosts_def inside_def
          blinky_def pinky_def inky_def clyde_def)
qed

lemma inMaze_state [simp]:
  "inMaze (g\<lparr>gameState := st\<rparr>) = inMaze g"
  "inMaze (g\<lparr>previousState := st\<rparr>) = inMaze g"
  by (simp_all add: inMaze_def)

lemma inMaze_heading:
  "inMaze g \<Longrightarrow> \<bar>dx\<bar> \<le> 1 \<Longrightarrow> \<bar>dy\<bar> \<le> 1 \<Longrightarrow>
     inMaze (g\<lparr>pacman := (pacman g)\<lparr>dirX := dx, dirY := dy\<rparr>\<rparr>)"
  by (simp add: inMaze_def)

lemma keyboard_inMaze_option:
  assumes "inMaze g"
  shows "case keyboard k g of None \<Rightarrow> True | Some g' \<Rightarrow> inMaze g'"
  using assms resetGame_inMaze[of g] unfolding keyboard_def
  by (simp add: inMaze_heading)

lemma keyboard_inMaze:
  assumes "keyboard k g = Some g'" "inMaze g"
  shows "inMaze g'"
  using keyboard_inMaze_option[OF assms(2), of k] assms(1) by simp

lemma reachable_inMaze: "reachable g \<Longrightarrow> inMaze g"
proof (induction rule: reachable.induct)
  case (start rs f w)
  show ?case unfolding main_init_def by (rule resetGame_inMaze)
next
  case (key g k g')
  then show ?case by (simp add: keyboard_inMaze)
next
  case (tick g g')
  then show ?case by (simp add: updateGame_inMaze)
qed

lemma bounded_speed_safe:
  assumes "reachable g" "\<forall>gh\<in>set (ghosts g). g_speed gh \<le> 0.999"
  shows "\<exists>g'. updateGame g = Inr g'"
  using updateGame_safe[OF reachable_inMaze[OF assms(1)] assms(2)] .

subsection \<open>Moves towards a target\<close>













subsection \<open>Pinky and Clyde\<close>











subsection \<open>Blinky\<close>













subsection \<open>The avatar's part of a tick\<close>



lemma avatarX_Suc:
  "avatarX (Suc n) = avatarX n + real_of_int (headingX n) * 0.1 \<or>
   (headingX n \<noteq> 1 \<and> avatarX (Suc n) = avatarX n)"
  by (auto simp: avatarX_def headingX_def of_nat_diff algebra_simps)









subsection \<open>The pursuers' part of a tick\<close>




lemma spd_le: "n \<le> m \<Longrightarrow> spd s0 n \<le> spd s0 m"
  using ups_mono[of n m] by (simp add: spd_def divide_right_mono)



lemma scene_ghosts [simp]:
  "scene n k (h\<lparr>ghosts := gs, rand_pos := rp\<rparr>) = scene n k h"
  "scene n k (h\<lparr>ghosts := gs\<rparr>) = scene n k h"
  by (simp_all add: scene_def)






















subsection \<open>A tick of the long session\<close>








subsection \<open>The session\<close>












section \<open>Claims\<close>

text \<open>
  C1. Across a tick the number of Pellet cells on the grid never grows. A tick of a session in
  progress ends in the state WIN exactly when no Pellet cell is left after it, never while a
  Pellet cell remains; a tick of a session that is not in progress changes nothing.
\<close>

theorem C1_pellets_monotone_and_win:
  assumes "updateGame g = Inr g'"
  shows "pelletCount (board g') \<le> pelletCount (board g)
       \<and> (gameState g = PLAYING \<longrightarrow> (gameState g' = WIN \<longleftrightarrow> pelletCount (board g') = 0))
       \<and> (gameState g \<noteq> PLAYING \<longrightarrow> g' = g)"
proof (cases "gameState g = PLAYING")
  case False
  with assms show ?thesis by (simp add: updateGame_def)
next
  case True
  from True assms obtain g1 g2 g3 g4 where
    p1: "movePacman (tickCounters g) = Inr g1" and p2: "eatPellet g1 = Inr g2"
    and p3: "collectPowerUp g2 = Inr g3" and p4: "moveGhosts (updatePowerUpTimer g3) = Inr g4"
    and p5: "g' = winCheck (collisionLoop 0 g4)"
    by (rule updateGame_phases)
  have b1: "board g1 = board g"
    using movePacman_board[OF p1] by (simp add: tickCounters_board)
  have b4: "board g4 = board g3"
    using moveGhosts_board[OF p4] by (simp add: updatePowerUpTimer_board)
  have b5: "board g' = board g4"
    by (simp add: p5 winCheck_board collisionLoop_board)
  have mono: "pelletCount (board g') \<le> pelletCount (board g)"
    using eatPellet_pelletCount[OF p2] collectPowerUp_pelletCount[OF p3] b1 b4 b5 by simp
  have s4: "gameState g4 = PLAYING"
    using moveGhosts_gameState[OF p4] collectPowerUp_gameState[OF p3] eatPellet_gameState[OF p2]
      movePacman_gameState[OF p1] True
    by (simp add: updatePowerUpTimer_gameState tickCounters_gameState)
  then have "gameState (collisionLoop 0 g4) \<noteq> WIN"
    by (intro collisionLoop_not_WIN) simp
  then have "gameState g' = WIN \<longleftrightarrow> pelletCount (board g') = 0"
    unfolding p5 by (simp add: winCheck_gameState winCheck_board)
  with mono True show ?thesis by simp
qed


theorem C1_witness:
  "updateGame frozenState = Inr (projr (updateGame frozenState))
   \<and> gameState frozenState = PLAYING
   \<and> pelletCount (board (projr (updateGame frozenState))) \<le> pelletCount (board frozenState)
   \<and> (gameState (projr (updateGame frozenState)) = WIN
        \<longleftrightarrow> pelletCount (board (projr (updateGame frozenState))) = 0)"
proof -
  from frozen_tick have h: "updateGame frozenState = Inr (projr (updateGame frozenState))"
    by auto
  have p: "gameState frozenState = PLAYING"
    by (simp add: frozenState_def startState_fields)
  from C1_pellets_monotone_and_win[OF h] h p show ?thesis by simp
qed

text \<open>
  C5 (as the code has it). When the avatar stands on a Pellet cell, \<^verbatim>\<open>updateGame\<close>'s pellet
  step turns that cell from Pellet to Empty, adds 10 to the score, and the number of Pellet
  cells on the grid drops by exactly one. The variable \<^verbatim>\<open>totalPellets\<close> is not touched: it
  is written by \<^verbatim>\<open>initBoard\<close> only, so the claim that a pellet counter is decremented fails,
  as the tick of \<open>frozenState\<close> shows.
\<close>

theorem C5_pellet_consumed:
  assumes "eatPellet g = Inr g'"
    and "board g (nat (c_int (p_y (pacman g)))) (nat (c_int (p_x (pacman g)))) = 1"
  shows "board g' (nat (c_int (p_y (pacman g)))) (nat (c_int (p_x (pacman g)))) = 0
       \<and> Suc (pelletCount (board g')) = pelletCount (board g)
       \<and> score g' = score g + 10
       \<and> totalPellets g' = totalPellets g"
proof -
  let ?r = "nat (c_int (p_y (pacman g)))" and ?c = "nat (c_int (p_x (pacman g)))"
  from eatPellet_cell[OF assms(1)] have rc: "?r < ROWS" "?c < COLS" by auto
  from assms eatPellet_cell[OF assms(1)]
  have g': "g' = g\<lparr>board := setCell (board g) ?r ?c 0, score := score g + 10\<rparr>"
    by (auto simp: eatPellet_def Let_def readBoard_def split: if_splits)
  have "Suc (pelletCount (setCell (board g) ?r ?c 0)) = pelletCount (board g)"
    using rc assms(2) by (rule pelletCount_setCell_eat)
  then show ?thesis by (simp add: g' setCell_def)
qed

theorem C5_witness:
  "board (frozenState\<lparr>pacman := \<lparr>p_x = 2, p_y = 1, dirX = 1, dirY = 0, p_speed = 0.1\<rparr>\<rparr>) 1 2 = 1
   \<and> Suc (pelletCount (setCell (board startState) 1 2 0)) = pelletCount (board startState)"
proof -
  let ?g = "frozenState\<lparr>pacman := \<lparr>p_x = 2, p_y = 1, dirX = 1, dirY = 0, p_speed = 0.1\<rparr>\<rparr>"
  have b: "board ?g (nat (c_int (p_y (pacman ?g)))) (nat (c_int (p_x (pacman ?g)))) = 1"
    by (simp add: frozenState_def board_startState mazeCell_def cellInit_def)
  from C5_pellet_consumed[OF eat_frozen b] b show ?thesis
    by (simp add: frozenState_def)
qed

theorem C5_counterexample:
  "board frozenState 1 2 = 1
   \<and> board (projr (updateGame frozenState)) 1 2 = 0
   \<and> \<not> totalPellets (projr (updateGame frozenState)) < totalPellets frozenState"
  by (simp add: frozen_result)
     (simp add: frozenState_def board_startState mazeCell_def cellInit_def setCell_def)

text \<open>
  C7. While Invincibility is the active power-up, the collision pass of a tick never changes
  the lives; it adds the capture bonus of 100 once for every pursuer within the proximity
  threshold, and each such pursuer stays in the list, moved to the centre cell (10, 10) with
  all its other fields kept; the pursuers out of reach are untouched.
\<close>

theorem C7_invincible_capture:
  assumes "activePowerUp g = 0"
  shows "lives (collisionLoop 0 g) = lives g
       \<and> score (collisionLoop 0 g)
           = score g + 100 * int (length (filter (near (pacman g)) (ghosts g)))
       \<and> ghosts (collisionLoop 0 g)
           = map (\<lambda>gh. if near (pacman g) gh then gh\<lparr>g_x := 10, g_y := 10\<rparr> else gh) (ghosts g)"
proof -
  have "relocate (pacman g) = (\<lambda>gh. if near (pacman g) gh then gh\<lparr>g_x := 10, g_y := 10\<rparr> else gh)"
    by (rule ext) (simp add: relocate_def)
  with collisionLoop_invincible[OF assms, of 0] show ?thesis by simp
qed


theorem C7_witness:
  "activePowerUp (frozenState\<lparr>activePowerUp := 0, ghosts := [blinky\<lparr>g_x := 2, g_y := 1\<rparr>, pinky, inky, clyde]\<rparr>) = 0
   \<and> lives (collisionLoop 0 (frozenState\<lparr>activePowerUp := 0, ghosts := [blinky\<lparr>g_x := 2, g_y := 1\<rparr>, pinky, inky, clyde]\<rparr>)) = 3
   \<and> score (collisionLoop 0 (frozenState\<lparr>activePowerUp := 0, ghosts := [blinky\<lparr>g_x := 2, g_y := 1\<rparr>, pinky, inky, clyde]\<rparr>)) = 100
   \<and> ghosts (collisionLoop 0 (frozenState\<lparr>activePowerUp := 0, ghosts := [blinky\<lparr>g_x := 2, g_y := 1\<rparr>, pinky, inky, clyde]\<rparr>))
        = [blinky\<lparr>g_x := 10, g_y := 10\<rparr>, pinky, inky, clyde]"
  using C7_invincible_capture[of "frozenState\<lparr>activePowerUp := 0, ghosts := [blinky\<lparr>g_x := 2, g_y := 1\<rparr>, pinky, inky, clyde]\<rparr>"]
  by (simp add: frozenState_def startState_fields near_def blinky_def pinky_def inky_def clyde_def)

text \<open>
  C3 (as the code has it). If Freeze is the active power-up when a tick ends and the tick cost
  no life, then no pursuer was changed by it: \<^verbatim>\<open>updateGhost\<close> returned at once for each of
  them, whatever target its strategy would have computed. The claim without the proviso
  fails: a frozen pursuer still captures, and the capture puts every pursuer back on its
  start cell, as the tick of \<open>caughtState\<close> shows.
\<close>

theorem C3_freeze_holds_pursuers:
  assumes "updateGame g = Inr g'" and "activePowerUp g' = 1" and "lives g' = lives g"
  shows "ghosts g' = ghosts g"
proof (cases "gameState g = PLAYING")
  case False
  with assms(1) show ?thesis by (simp add: updateGame_def)
next
  case True
  from True assms(1) obtain g1 g2 g3 g4 where
    p1: "movePacman (tickCounters g) = Inr g1" and p2: "eatPellet g1 = Inr g2"
    and p3: "collectPowerUp g2 = Inr g3" and p4: "moveGhosts (updatePowerUpTimer g3) = Inr g4"
    and p5: "g' = winCheck (collisionLoop 0 g4)"
    by (rule updateGame_phases)
  let ?h = "updatePowerUpTimer g3"
  have a4: "activePowerUp g4 = 1"
    using assms(2) collisionLoop_keeps[of 0 g4] by (simp add: p5 winCheck_keeps)
  then have "activePowerUp ?h = 1"
    by (simp add: moveGhosts_keeps[OF p4])
  then have "moveGhosts ?h = Inr ?h" by (rule moveGhosts_frozen)
  with p4 have g4: "g4 = ?h" by simp
  have gh: "ghosts g4 = ghosts g"
    by (simp add: g4 updatePowerUpTimer_keeps collectPowerUp_keeps[OF p3] eatPellet_keeps[OF p2]
          movePacman_keeps[OF p1] tickCounters_keeps)
  have li: "lives g4 = lives g"
    by (simp add: g4 updatePowerUpTimer_keeps collectPowerUp_keeps[OF p3] eatPellet_keeps[OF p2]
          movePacman_keeps[OF p1] tickCounters_keeps)
  have "lives (collisionLoop 0 g4) = lives g4"
    using assms(3) li by (simp add: p5 winCheck_keeps)
  from collisionLoop_same_lives[OF this] a4 have "ghosts (collisionLoop 0 g4) = ghosts g4"
    by simp
  with gh show ?thesis by (simp add: p5 winCheck_keeps)
qed


theorem C3_witness:
  "updateGame frozenState = Inr (projr (updateGame frozenState))
   \<and> activePowerUp (projr (updateGame frozenState)) = 1
   \<and> lives (projr (updateGame frozenState)) = lives frozenState
   \<and> ghosts (projr (updateGame frozenState)) = ghosts frozenState"
proof -
  have h: "updateGame frozenState = Inr (projr (updateGame frozenState))"
    by (simp add: frozen_result)
  have a: "activePowerUp (projr (updateGame frozenState)) = 1"
    by (simp add: frozen_result) (simp add: frozenState_def)
  have l: "lives (projr (updateGame frozenState)) = lives frozenState"
    by (simp add: frozen_result)
  from C3_freeze_holds_pursuers[OF h a l] h a l show ?thesis by simp
qed

theorem C3_counterexample:
  "activePowerUp caughtState = 1
   \<and> activePowerUp (projr (updateGame caughtState)) = 1
   \<and> (g_x (ghosts caughtState ! 0), g_y (ghosts caughtState ! 0)) = (2.3, 1)
   \<and> (g_x (ghosts (projr (updateGame caughtState)) ! 0),
       g_y (ghosts (projr (updateGame caughtState)) ! 0)) = (18, 18)"
  by (simp add: caught_result) (simp add: caughtState_def frozenState_def blinky_def)




text \<open>
  C4 (as the code has it). \<^verbatim>\<open>updateGhost\<close> keeps no target between ticks. For the Random
  pursuer, whose timer is never negative, the target of an update is drawn afresh as the cell
  \<open>(rand() % 20, rand() % 20)\<close>, both coordinates within \<open>0..19\<close>, on every update whose
  timer lies in a window \<open>[5k, 5k + 1)\<close>; on every other update the target is the avatar's
  current position. So the target changes from tick to tick inside a window, as the two
  consecutive updates with timers 0.016 and 0.032 show.
\<close>

theorem C4_random_target:
  assumes "behavior gh = 3" and "0 \<le> specialTimer gh"
  shows "((\<exists>k::nat. 5 * real k \<le> specialTimer gh \<and> specialTimer gh < 5 * real k + 1) \<longrightarrow>
            ghostTarget g gh = (real (rand_seq g (rand_pos g) mod COLS),
                                real (rand_seq g (Suc (rand_pos g)) mod ROWS),
                                rand_pos g + 2)
            \<and> rand_seq g (rand_pos g) mod COLS < COLS
            \<and> rand_seq g (Suc (rand_pos g)) mod ROWS < ROWS)
       \<and> (\<not> (\<exists>k::nat. 5 * real k \<le> specialTimer gh \<and> specialTimer gh < 5 * real k + 1) \<longrightarrow>
            ghostTarget g gh = (p_x (pacman g), p_y (pacman g), rand_pos g))"
proof -
  have m: "real_of_int (int n smod 20) = real (n mod 20)" for n :: nat
  proof -
    have "int n smod 20 = int (n mod 20)" by (simp add: smod_nonneg zmod_int)
    then show ?thesis by (simp only: of_int_of_nat_eq)
  qed
  show ?thesis
    using assms(1) timer_window[OF assms(2)]
    by (simp add: ghostTarget_def Let_def m del: of_nat_mod)
qed

theorem C4_witness:
  "ghostTarget countingState (clydeAt 0.016) = (0, 1, 2)
   \<and> ghostTarget countingState (clydeAt 2) = (1, 1, 0)"
proof -
  have b: "behavior (clydeAt t) = 3" for t by (simp add: clydeAt_def clyde_def)
  have w: "\<exists>k::nat. 5 * real k \<le> specialTimer (clydeAt 0.016) \<and> specialTimer (clydeAt 0.016) < 5 * real k + 1"
    by (rule exI[of _ 0]) (simp add: clydeAt_def)
  have n: "\<not> (\<exists>k::nat. 5 * real k \<le> specialTimer (clydeAt 2) \<and> specialTimer (clydeAt 2) < 5 * real k + 1)"
  proof
    assume "\<exists>k::nat. 5 * real k \<le> specialTimer (clydeAt 2) \<and> specialTimer (clydeAt 2) < 5 * real k + 1"
    then obtain k :: nat where "5 * real k \<le> 2" "2 < 5 * real k + 1"
      by (auto simp: clydeAt_def)
    then show False by (cases k) simp_all
  qed
  have t1: "0 \<le> specialTimer (clydeAt 0.016)" and t2: "0 \<le> specialTimer (clydeAt 2)"
    by (simp_all add: clydeAt_def)
  from C4_random_target[OF b t1, of countingState] w
       C4_random_target[OF b t2, of countingState] n
  show ?thesis
    by (simp add: countingState_def startState_fields)
qed

theorem C4_counterexample:
  "c_int (specialTimer (clydeAt 0.016)) = c_int (specialTimer (clydeAt 0.032))
   \<and> ghostTarget countingState (clydeAt 0.016) = (0, 1, 2)
   \<and> ghostTarget (countingState\<lparr>rand_pos := 2\<rparr>) (clydeAt 0.032) = (2, 3, 4)"
  by (simp add: ghostTarget_def clydeAt_def clyde_def countingState_def startState_fields
        c_int_def smod_nonneg)



text \<open>
  C9 (as the code has it). \<^verbatim>\<open>main\<close> reads the store once: the best score is the stored
  integer, and 0 when the store is missing or holds no integer; nothing aborts. A tick of a
  session in progress writes the store exactly when it ends the session (GAMEOVER or WIN)
  with a score above the best score held in memory and the store can be opened for writing;
  it then holds the final score. With a store that cannot be opened the higher score is not
  written, as the tick of \<open>unwritableState\<close> shows.
\<close>

theorem C9_high_score_store:
  assumes "gameState g = PLAYING" and "updateGame g = Inr g'"
  shows "highScore (main_init rs f w) = (case f of Holds n \<Rightarrow> n | Unreadable \<Rightarrow> 0 | Missing \<Rightarrow> 0)
       \<and> hs_store g'
           = (if (gameState g' = GAMEOVER \<or> gameState g' = WIN)
                 \<and> highScore g < score g' \<and> hs_writable g
              then Holds (score g') else hs_store g)"
proof -
  have a: "highScore (main_init rs f w) = (case f of Holds n \<Rightarrow> n | Unreadable \<Rightarrow> 0 | Missing \<Rightarrow> 0)"
    by (simp add: main_init_def resetGame_def initPowerUps_def initGhosts_def initBoard_def
          loadHighScore_def boot_def Let_def split: prod.splits hs_file.splits)
  from assms obtain g1 g2 g3 g4 where
    p1: "movePacman (tickCounters g) = Inr g1" and p2: "eatPellet g1 = Inr g2"
    and p3: "collectPowerUp g2 = Inr g3" and p4: "moveGhosts (updatePowerUpTimer g3) = Inr g4"
    and p5: "g' = winCheck (collisionLoop 0 g4)"
    by (rule updateGame_phases)
  have s4: "gameState g4 = PLAYING"
    using moveGhosts_gameState[OF p4] collectPowerUp_gameState[OF p3] eatPellet_gameState[OF p2]
      movePacman_gameState[OF p1] assms(1)
    by (simp add: updatePowerUpTimer_gameState tickCounters_gameState)
  have k: "hs_store g4 = hs_store g" "highScore g4 = highScore g" "hs_writable g4 = hs_writable g"
    by (simp_all add: moveGhosts_store[OF p4] phase_store_keeps collectPowerUp_store[OF p3]
          eatPellet_store[OF p2] movePacman_store[OF p1])
  from collision_then_win_store[OF s4] a show ?thesis
    by (auto simp: p5 k)
qed


theorem C9_counterexample:
  "gameState unwritableState = PLAYING
   \<and> gameState (projr (updateGame unwritableState)) = WIN
   \<and> highScore unwritableState = 100
   \<and> hs_store unwritableState = Holds 100
   \<and> score (projr (updateGame unwritableState)) = 3270
   \<and> hs_store (projr (updateGame unwritableState)) = Holds 100"
  by (simp add: unwritable_result)
     (simp add: unwritableState_def lastPelletState_def caughtState_def frozenState_def
        startState_fields)

theorem C9_witness:
  "gameState lastPelletState = PLAYING
   \<and> updateGame lastPelletState = Inr (projr (updateGame lastPelletState))
   \<and> highScore (main_init (\<lambda>n. 0) Missing True) = 0
   \<and> highScore (main_init (\<lambda>n. 0) (Holds 120) True) = 120
   \<and> hs_store lastPelletState = Missing
   \<and> hs_store (projr (updateGame lastPelletState)) = Holds 3270"
proof -
  have p: "gameState lastPelletState = PLAYING"
    by (simp add: lastPelletState_def caughtState_def frozenState_def startState_fields)
  have h: "updateGame lastPelletState = Inr (projr (updateGame lastPelletState))"
    by (simp add: lastPellet_result)
  have e: "gameState (projr (updateGame lastPelletState)) = WIN"
    "score (projr (updateGame lastPelletState)) = 3270"
    by (simp_all add: lastPellet_result)
  have i: "highScore lastPelletState = 0" "hs_writable lastPelletState" "hs_store lastPelletState = Missing"
    by (simp_all add: lastPelletState_def caughtState_def frozenState_def startState_fields)
  from C9_high_score_store[OF p h, of "\<lambda>n. 0" Missing True]
       C9_high_score_store[OF p h, of "\<lambda>n. 0" "Holds 120" True] p h e i
  show ?thesis by simp
qed

text \<open>
  C8. Take a tick of a session in progress after which the countdown is at or below zero.
  If the countdown was positive before the tick, it crossed zero in this tick: the
  current-effect slot is cleared (-1) and the avatar's speed is the base speed 0.1. If it
  was already at or below zero, the tick leaves countdown, slot and avatar speed as they
  were: the restoration is not carried out a second time.
\<close>

theorem C8_countdown_expiry:
  assumes "gameState g = PLAYING" and "updateGame g = Inr g'" and "powerUpTimer g' \<le> 0"
  shows "(0 < powerUpTimer g \<longrightarrow> activePowerUp g' = - 1 \<and> p_speed (pacman g') = 0.1)
       \<and> (powerUpTimer g \<le> 0 \<longrightarrow>
            powerUpTimer g' = powerUpTimer g \<and> activePowerUp g' = activePowerUp g
            \<and> p_speed (pacman g') = p_speed (pacman g))"
proof -
  from assms(1,2) obtain g1 g2 g3 g4 where
    p1: "movePacman (tickCounters g) = Inr g1" and p2: "eatPellet g1 = Inr g2"
    and p3: "collectPowerUp g2 = Inr g3" and p4: "moveGhosts (updatePowerUpTimer g3) = Inr g4"
    and p5: "g' = winCheck (collisionLoop 0 g4)"
    by (rule updateGame_phases)
  let ?h = "updatePowerUpTimer g3"
  have e: "powerUpTimer g' = powerUpTimer ?h" "activePowerUp g' = activePowerUp ?h"
    "p_speed (pacman g') = p_speed (pacman ?h)"
    using collisionLoop_keeps[of 0 g4] by (simp_all add: p5 winCheck_keeps moveGhosts_keeps[OF p4])
  have b: "powerUpTimer g2 = powerUpTimer g" "activePowerUp g2 = activePowerUp g"
    "p_speed (pacman g2) = p_speed (pacman g)"
    by (simp_all add: eatPellet_keeps[OF p2] movePacman_keeps[OF p1] tickCounters_keeps)
  have "powerUpTimer g3 \<noteq> 5"
  proof
    assume "powerUpTimer g3 = 5"
    then have "powerUpTimer ?h > 0" by (simp add: updatePowerUpTimer_def Let_def)
    with assms(3) e(1) show False by simp
  qed
  with collectPowerUp_keeps(5)[OF p3] b
  have c: "powerUpTimer g3 = powerUpTimer g" "activePowerUp g3 = activePowerUp g"
    "p_speed (pacman g3) = p_speed (pacman g)"
    by auto
  show ?thesis
  proof (cases "0 < powerUpTimer g")
    case True
    with assms(3) e(1) c(1) have "powerUpTimer g3 - 0.016 \<le> 0"
      by (simp add: updatePowerUpTimer_def Let_def split: if_splits)
    with True c(1) have "activePowerUp ?h = - 1" "p_speed (pacman ?h) = 0.1"
      by (simp_all add: updatePowerUpTimer_def Let_def)
    with True e show ?thesis by simp
  next
    case False
    with c(1) have "?h = g3" by (simp add: updatePowerUpTimer_def)
    with False e c show ?thesis by simp
  qed
qed

theorem C8_witness:
  "gameState expiryState = PLAYING
   \<and> updateGame expiryState = Inr expiryEnd
   \<and> activePowerUp expiryState = 1 \<and> powerUpTimer expiryState = 0.008
   \<and> powerUpTimer expiryEnd = - 0.008
   \<and> activePowerUp expiryEnd = - 1 \<and> p_speed (pacman expiryEnd) = 0.1"
proof -
  have p: "gameState expiryState = PLAYING"
    by (simp add: expiryState_def startState_fields)
  have t: "powerUpTimer expiryEnd \<le> 0" "powerUpTimer expiryEnd = - 0.008"
    by (simp_all add: expiryEnd_def expiryMid_def)
  have s: "0 < powerUpTimer expiryState" "activePowerUp expiryState = 1"
    "powerUpTimer expiryState = 0.008"
    by (simp_all add: expiryState_def)
  from C8_countdown_expiry[OF p expiry_result t(1)] s p expiry_result t(2)
  show ?thesis by simp
qed


end
